theory Spec2Isabelle
  imports Complex_Main "HOL-Library.Multiset"
begin

section \<open>Python values shared by both modules\<close>

text \<open>
  Exceptions of the source are values: \<open>Inl e\<close> is a raised exception, \<open>Inr v\<close> a
  returned value.  Floating-point numbers are modelled as real numbers.
\<close>

datatype py_error = IndexError | KeyError

text \<open>
  A Python \<open>dict\<close> keeps insertion order and has unique keys.  It is an association list;
  \<open>d[k] = v\<close> replaces the value of an existing key in place and appends a new key.
\<close>

fun dict_set :: "'k \<Rightarrow> 'v \<Rightarrow> ('k \<times> 'v) list \<Rightarrow> ('k \<times> 'v) list" where
  "dict_set k v [] = [(k, v)]"
| "dict_set k v ((k', v') # d) = (if k = k' then (k, v) # d else (k', v') # dict_set k v d)"

section \<open>tier\_calculator.py: tier assignment\<close>

datatype tier = TierS | TierA | TierB | TierC | TierD

type_synonym score_map = "(string \<times> real) list"
type_synonym tier_assignment = "(string \<times> tier) list"

text \<open>Position of a label in the best-to-worst order \<open>S, A, B, C, D\<close>.\<close>

fun tier_rank :: "tier \<Rightarrow> nat" where
  "tier_rank TierS = 0"
| "tier_rank TierA = 1"
| "tier_rank TierB = 2"
| "tier_rank TierC = 3"
| "tier_rank TierD = 4"

definition tier_order :: "tier list" where
  "tier_order = [TierS, TierA, TierB, TierC, TierD]"

fun ideal_distribution :: "tier \<Rightarrow> nat" where
  "ideal_distribution TierS = 3"
| "ideal_distribution TierA = 4"
| "ideal_distribution TierB = 5"
| "ideal_distribution TierC = 5"
| "ideal_distribution TierD = 3"

text \<open>
  \<open>sorted(team_scores.items(), key=lambda x: x[1], reverse=True)\<close>: a stable sort by
  descending score; entries of equal score keep the order of the dict.
\<close>

definition sorted_teams_of :: "score_map \<Rightarrow> score_map" where
  "sorted_teams_of team_scores = sort_key (\<lambda>x. - snd x) team_scores"

text \<open>
  \<open>np.percentile(a, q)\<close> with NumPy's default linear interpolation: on the ascending
  sort of \<open>a\<close> the virtual index is \<open>(n - 1) * q / 100\<close>, and the result interpolates
  between its two neighbours.  On an empty sequence NumPy raises \<open>IndexError\<close>
  (index -1 is out of bounds for axis 0 with size 0).
\<close>

definition percentile :: "real list \<Rightarrow> real \<Rightarrow> py_error + real" where
  "percentile a q =
     (if a = [] then Inl IndexError
      else let srt = sort a;
               n = length a;
               h = real (n - 1) * (q / 100);
               lo = nat \<lfloor>h\<rfloor>;
               hi = min (lo + 1) (n - 1)
           in Inr (srt ! lo + (h - real lo) * (srt ! hi - srt ! lo)))"

text \<open>The \<open>if/elif\<close> chain of the first pass.\<close>

definition threshold_tier :: "real \<Rightarrow> real \<Rightarrow> real \<Rightarrow> real \<Rightarrow> real \<Rightarrow> tier" where
  "threshold_tier s_threshold a_threshold b_threshold c_threshold score =
     (if score \<ge> s_threshold then TierS
      else if score \<ge> a_threshold then TierA
      else if score \<ge> b_threshold then TierB
      else if score \<ge> c_threshold then TierC
      else TierD)"

text \<open>
  \<open>_balance_tiers\<close>.  The first loop counts the labels of the first pass into
  \<open>tier_counts\<close>.  The main loop keeps \<open>current_counts\<close> and \<open>balanced_tiers\<close>; one
  iteration is \<open>balance_step\<close>: the inner \<open>for tier in tier_order\<close> with its \<open>break\<close> is
  \<open>find\<close>, and the \<open>if not assigned\<close> block is the same search over
  \<open>reversed(tier_order)\<close>, with the same test.
\<close>

definition count_tiers :: "tier list \<Rightarrow> (tier \<Rightarrow> nat)" where
  "count_tiers labels = foldl (\<lambda>tier_counts t. tier_counts(t := tier_counts t + 1)) (\<lambda>_. 0) labels"

definition balance_step ::
  "(tier \<Rightarrow> nat) \<times> tier_assignment \<Rightarrow> string \<times> real \<Rightarrow> (tier \<Rightarrow> nat) \<times> tier_assignment" where
  "balance_step st entry =
     (case st of (current_counts, balanced_tiers) \<Rightarrow>
      case entry of (team, score) \<Rightarrow>
       (case find (\<lambda>t. current_counts t < ideal_distribution t) tier_order of
          Some t \<Rightarrow> (current_counts(t := current_counts t + 1), dict_set team t balanced_tiers)
        | None \<Rightarrow>
           (case find (\<lambda>t. current_counts t < ideal_distribution t) (rev tier_order) of
              Some t \<Rightarrow> (current_counts(t := current_counts t + 1), dict_set team t balanced_tiers)
            | None \<Rightarrow> (current_counts, balanced_tiers))))"

definition balance_tiers :: "tier_assignment \<Rightarrow> score_map \<Rightarrow> tier_assignment" where
  "balance_tiers tiers sorted_teams =
     (let tier_counts = count_tiers (map snd tiers)
      in snd (foldl balance_step ((\<lambda>_. 0), []) sorted_teams))"

definition assign_tiers :: "score_map \<Rightarrow> py_error + tier_assignment" where
  "assign_tiers team_scores =
     (let sorted_teams = sorted_teams_of team_scores;
          scores_list = map snd sorted_teams
      in case percentile scores_list 85 of Inl e \<Rightarrow> Inl e | Inr s_threshold \<Rightarrow>
         case percentile scores_list 65 of Inl e \<Rightarrow> Inl e | Inr a_threshold \<Rightarrow>
         case percentile scores_list 40 of Inl e \<Rightarrow> Inl e | Inr b_threshold \<Rightarrow>
         case percentile scores_list 20 of Inl e \<Rightarrow> Inl e | Inr c_threshold \<Rightarrow>
           (let tiers = foldl (\<lambda>tiers (team, score).
                               dict_set team
                                 (threshold_tier s_threshold a_threshold b_threshold c_threshold score)
                                 tiers)
                          [] sorted_teams
            in Inr (balance_tiers tiers sorted_teams)))"

text \<open>
  The rebalance pass alone, as the specification describes it: the greedy pass over the
  entities sorted by descending score, with no percentile labels.
\<close>

definition rebalance_only :: "score_map \<Rightarrow> tier_assignment" where
  "rebalance_only team_scores =
     snd (foldl balance_step ((\<lambda>_. 0), []) (sorted_teams_of team_scores))"

text \<open>Number of entities that an assignment puts into a tier.\<close>

definition tier_count :: "tier \<Rightarrow> tier_assignment \<Rightarrow> nat" where
  "tier_count t ta = length (filter (\<lambda>e. snd e = t) ta)"

section \<open>tier\_calculator.py: team scores\<close>

text \<open>
  One row of the \<open>teams_data\<close> table, with the columns that \<open>calculate_team_scores\<close>
  reads; \<open>league_position\<close> is the column \<open>position\<close>.  Every cell is a
  defined number (the table has no \<open>NaN\<close>).
\<close>

record team_row =
  team :: string
  league_position :: real
  goals_for :: real
  goals_against :: real
  possession_avg :: real
  pass_accuracy :: real
  shots_per_game :: real
  clean_sheets :: real

text \<open>
  \<open>Series.max()\<close> and \<open>Series.min()\<close>: the extreme value of a column, and \<open>NaN\<close>
  (here \<open>None\<close>) for a column without values.
\<close>

fun series_max :: "real list \<Rightarrow> real option" where
  "series_max [] = None"
| "series_max (x # xs) = Some (fold max xs x)"

fun series_min :: "real list \<Rightarrow> real option" where
  "series_min [] = None"
| "series_min (x # xs) = Some (fold min xs x)"

text \<open>
  The two normalisation loops of \<open>calculate_team_scores\<close>, for one column.  On an empty
  column \<open>max_val\<close> and \<open>min_val\<close> are \<open>NaN\<close>, \<open>max_val != min_val\<close> holds, and the
  arithmetic branch yields an empty column.
\<close>

definition normalize_higher :: "real list \<Rightarrow> real list" where
  "normalize_higher col =
     (case (series_max col, series_min col) of
        (Some max_val, Some min_val) \<Rightarrow>
          if max_val \<noteq> min_val
          then map (\<lambda>v. ((v - min_val) / (max_val - min_val)) * 100) col
          else map (\<lambda>_. 50) col
      | _ \<Rightarrow> [])"

definition normalize_lower :: "real list \<Rightarrow> real list" where
  "normalize_lower col =
     (case (series_max col, series_min col) of
        (Some max_val, Some min_val) \<Rightarrow>
          if max_val \<noteq> min_val
          then map (\<lambda>v. ((max_val - v) / (max_val - min_val)) * 100) col
          else map (\<lambda>_. 50) col
      | _ \<Rightarrow> [])"

text \<open>
  \<open>calculate_team_scores(teams_data, standings)\<close>; \<open>standings\<close> is never read.  The
  weights \<open>0.35, 0.15, 0.15, 0.10, 0.10, 0.08, 0.07\<close> are exact decimals.
\<close>

definition calculate_team_scores :: "team_row list \<Rightarrow> 's \<Rightarrow> (string \<times> real) list" where
  "calculate_team_scores teams_data standings =
     (let goals_for_norm = normalize_higher (map goals_for teams_data);
          possession_avg_norm = normalize_higher (map possession_avg teams_data);
          pass_accuracy_norm = normalize_higher (map pass_accuracy teams_data);
          shots_per_game_norm = normalize_higher (map shots_per_game teams_data);
          clean_sheets_norm = normalize_higher (map clean_sheets teams_data);
          position_norm = normalize_lower (map league_position teams_data);
          goals_against_norm = normalize_lower (map goals_against teams_data)
      in foldl (\<lambda>scores i.
                  dict_set (team (teams_data ! i))
                    (position_norm ! i * (35 / 100) +
                     goals_for_norm ! i * (15 / 100) +
                     goals_against_norm ! i * (15 / 100) +
                     possession_avg_norm ! i * (10 / 100) +
                     pass_accuracy_norm ! i * (10 / 100) +
                     shots_per_game_norm ! i * (8 / 100) +
                     clean_sheets_norm ! i * (7 / 100))
                    scores)
           [] [0..<length teams_data])"

section \<open>The Normalizer of the specification\<close>

text \<open>
  The reference definition, from the specification's words: with \<open>min\<close> and \<open>max\<close> of the
  raw metric across the group, the midpoint 50 if \<open>max = min\<close>, else
  \<open>(raw - min) / (max - min) * 100\<close> for higher-is-better and
  \<open>(max - raw) / (max - min) * 100\<close> for lower-is-better.
\<close>

datatype polarity = HigherIsBetter | LowerIsBetter

definition spec_normalize :: "polarity \<Rightarrow> real list \<Rightarrow> real \<Rightarrow> real" where
  "spec_normalize pol vals raw =
     (let mx = Max (set vals); mn = Min (set vals)
      in if mx = mn then 50
         else case pol of
                HigherIsBetter \<Rightarrow> (raw - mn) / (mx - mn) * 100
              | LowerIsBetter \<Rightarrow> (mx - raw) / (mx - mn) * 100)"

section \<open>player\_analyzer.py\<close>

text \<open>
  A row of the players table: its name, its position and its numeric cells by column
  label; \<open>None\<close> is \<open>NaN\<close>.  A table is the list of the labels of its numeric
  columns and its rows.
\<close>

record player_row =
  name :: string
  player_position :: string
  stats :: "string \<rightharpoonup> real"

record players_frame =
  columns :: "string list"
  rows :: "player_row list"

definition forward_weights :: "(string \<times> real) list" where
  "forward_weights =
     [(''goals'', 40 / 100), (''assists'', 25 / 100), (''appearances'', 15 / 100),
      (''market_value'', 20 / 100)]"

definition position_weights :: "(string \<times> (string \<times> real) list) list" where
  "position_weights =
     [(''Forward'', forward_weights),
      (''Midfielder'',
        [(''goals'', 20 / 100), (''assists'', 35 / 100), (''appearances'', 20 / 100),
         (''market_value'', 25 / 100)]),
      (''Defender'',
        [(''goals'', 10 / 100), (''assists'', 15 / 100), (''clean_sheets'', 35 / 100),
         (''appearances'', 20 / 100), (''market_value'', 20 / 100)]),
      (''Goalkeeper'',
        [(''saves'', 40 / 100), (''clean_sheets'', 35 / 100), (''appearances'', 15 / 100),
         (''market_value'', 10 / 100)])]"

text \<open>pandas skips \<open>NaN\<close> cells when it takes \<open>max()\<close> and \<open>min()\<close>.\<close>

fun dropna :: "real option list \<Rightarrow> real list" where
  "dropna [] = []"
| "dropna (None # col) = dropna col"
| "dropna (Some v # col) = v # dropna col"

text \<open>
  The body of the loop of \<open>_normalize_position_metrics\<close> for one column.  If
  \<open>max_val != min_val and max_val > 0\<close> the column is rescaled cell by cell (a \<open>NaN\<close>
  cell stays \<open>NaN\<close>); otherwise, also when \<open>max_val\<close> is \<open>NaN\<close>, every cell of the new
  column is the scalar 50.
\<close>

definition normalize_column :: "real option list \<Rightarrow> real option list" where
  "normalize_column col =
     (case (series_max (dropna col), series_min (dropna col)) of
        (Some max_val, Some min_val) \<Rightarrow>
          if max_val \<noteq> min_val \<and> max_val > 0
          then map (map_option (\<lambda>v. ((v - min_val) / (max_val - min_val)) * 100)) col
          else map (\<lambda>_. Some 50) col
      | _ \<Rightarrow> map (\<lambda>_. Some 50) col)"

text \<open>
  The label \<open>f'{metric}_norm'\<close> of the column that holds the normalised values of a
  metric.
\<close>

definition norm_label :: "string \<Rightarrow> string" where
  "norm_label metric = metric @ ''_norm''"

text \<open>
  \<open>df[label] = cells\<close>: an existing column is overwritten in place, a new one is
  appended; every row gets its cell.
\<close>

definition set_column :: "string \<Rightarrow> real option list \<Rightarrow> players_frame \<Rightarrow> players_frame" where
  "set_column label cells df =
     \<lparr>columns = (if label \<in> set (columns df) then columns df else columns df @ [label]),
      rows = map (\<lambda>(r, v). r\<lparr>stats := (stats r)(label := v)\<rparr>) (zip (rows df) cells)\<rparr>"

text \<open>
  \<open>_normalize_position_metrics\<close>: \<open>normalized_data\<close> starts as a copy of the table;
  for each metric of the position's weights that is a column of \<open>normalized_data\<close>, the
  column \<open><metric>_norm\<close> is set.  Indexing \<open>position_weights[position]\<close> raises
  \<open>KeyError\<close> for a position without weights.
\<close>

definition add_norm_column :: "string \<Rightarrow> players_frame \<Rightarrow> players_frame" where
  "add_norm_column metric normalized_data =
     set_column (norm_label metric)
       (normalize_column (map (\<lambda>r. stats r metric) (rows normalized_data)))
       normalized_data"

definition normalize_position_metrics :: "players_frame \<Rightarrow> string \<Rightarrow> py_error + players_frame" where
  "normalize_position_metrics position_players position =
     (case map_of position_weights position of
        None \<Rightarrow> Inl KeyError
      | Some w \<Rightarrow>
          Inr (foldl (\<lambda>normalized_data metric.
                        if metric \<in> set (columns normalized_data)
                        then add_norm_column metric normalized_data else normalized_data)
                 position_players (map fst w)))"

text \<open>
  The inner loop of \<open>calculate_player_scores\<close> over \<open>weights.items()\<close> and the
  renormalisation that follows it, for one row \<open>player\<close> of \<open>normalized_data\<close>, given
  by the labels of the row and its cells: \<open>norm_metric in player\<close> asks for the label
  among all labels of the row, whether the normaliser set that column or the table
  came with it.
\<close>

definition player_score :: "(string \<times> real) list \<Rightarrow> string list \<Rightarrow> (string \<rightharpoonup> real) \<Rightarrow> real" where
  "player_score weights labels player =
     (case foldl (\<lambda>(score, total_weight) (metric, weight).
                    if norm_label metric \<in> set labels \<and> player (norm_label metric) \<noteq> None
                    then (score + the (player (norm_label metric)) * weight, total_weight + weight)
                    else (score, total_weight))
             (0, 0) weights of
        (score, total_weight) \<Rightarrow>
          if total_weight > 0 then score / total_weight * 100 else score)"

text \<open>
  \<open>calculate_player_scores(players_data, position)\<close>.  A table is \<open>empty\<close> when it
  has no rows; \<open>position_players\<close> are the rows of the position.  The weights fall
  back to those of \<open>'Forward'\<close>; \<open>_normalize_position_metrics\<close> is then called with
  the position itself.
\<close>

definition calculate_player_scores :: "players_frame \<Rightarrow> string \<Rightarrow> py_error + (string \<times> real) list" where
  "calculate_player_scores players_data position =
     (if rows players_data = [] then Inr []
      else let position_players =
                 players_data\<lparr>rows := filter (\<lambda>r. player_position r = position) (rows players_data)\<rparr>
           in if rows position_players = [] then Inr []
              else let weights = (case map_of position_weights position of
                                    Some w \<Rightarrow> w | None \<Rightarrow> forward_weights)
                   in case normalize_position_metrics position_players position of
                        Inl e \<Rightarrow> Inl e
                      | Inr normalized_data \<Rightarrow>
                          Inr (foldl (\<lambda>scores player.
                                        dict_set (name player)
                                          (player_score weights (columns normalized_data)
                                             (stats player))
                                          scores)
                                 [] (rows normalized_data)))"

text \<open>
  \<open>compare_players(player1_data, player2_data)\<close>.  A player is passed as a labelled
  series: the fields of a row and the labels \<open>stat_keys\<close> of its numeric cells.
  \<open>pd.DataFrame([player1_data, player2_data])\<close> has the union of the labels as columns
  and \<open>NaN\<close> where a series lacks a label.
\<close>

record player_data = player_row +
  stat_keys :: "string list"

definition series_row :: "player_data \<Rightarrow> player_row" where
  "series_row p =
     \<lparr>name = name p, player_position = player_position p,
      stats = (\<lambda>m. if m \<in> set (stat_keys p) then stats p m else None)\<rparr>"

definition temp_df :: "player_data \<Rightarrow> player_data \<Rightarrow> players_frame" where
  "temp_df player1_data player2_data =
     \<lparr>columns = stat_keys player1_data
                  @ filter (\<lambda>k. k \<notin> set (stat_keys player1_data)) (stat_keys player2_data),
      rows = [series_row player1_data, series_row player2_data]\<rparr>"

text \<open>
  The labels that \<open>_extract_key_stats\<close> and \<open>_identify_key_differences\<close> index with
  \<open>player_data[...]\<close>; a missing one raises \<open>KeyError\<close>.  (\<open>clean_sheets\<close> and
  \<open>saves\<close> are read with \<open>.get\<close> and cannot raise.)
\<close>

definition required_keys :: "string \<Rightarrow> string list" where
  "required_keys position =
     [''age'', ''market_value'', ''appearances'']
     @ (if position = ''Forward'' \<or> position = ''Midfielder'' \<or> position = ''Defender''
        then [''goals'', ''assists''] else [])"

text \<open>
  The result: the dict \<open>{"error": ...}\<close>, or the comparison with the two names, the
  two scores and the winner.  The entries \<open>stats\<close> and \<open>key_differences\<close> of the
  comparison repeat raw cells and are not part of the model; the \<open>KeyError\<close> they can
  raise is.
\<close>

datatype comparison =
  ErrorDict string
| Comparison (player1_name: string) (player1_score: real)
             (player2_name: string) (player2_score: real) (winner: string)

definition compare_players :: "player_data \<Rightarrow> player_data \<Rightarrow> py_error + comparison" where
  "compare_players player1_data player2_data =
     (if player_position player1_data \<noteq> player_position player2_data
      then Inr (ErrorDict ''Players must be in the same position for comparison'')
      else let position = player_position player1_data
           in case calculate_player_scores (temp_df player1_data player2_data) position of
                Inl e \<Rightarrow> Inl e
              | Inr player_scores \<Rightarrow>
                  if \<not> (set (required_keys position) \<subseteq> set (stat_keys player1_data)
                        \<and> set (required_keys position) \<subseteq> set (stat_keys player2_data))
                  then Inl KeyError
                  else let score1 = (case map_of player_scores (name player1_data) of
                                       Some s \<Rightarrow> s | None \<Rightarrow> 0);
                           score2 = (case map_of player_scores (name player2_data) of
                                       Some s \<Rightarrow> s | None \<Rightarrow> 0)
                       in Inr (Comparison (name player1_data) score1 (name player2_data) score2
                                 (if score1 > score2 then name player1_data
                                  else if score2 > score1 then name player2_data
                                  else ''Draw'')))"

text \<open>Concrete tables: a player of an unconfigured position, two players with negative cells.\<close>

definition winger_frame :: players_frame where
  "winger_frame =
     \<lparr>columns = [''goals'', ''assists'', ''appearances'', ''market_value''],
      rows = [\<lparr>name = ''Nico'', player_position = ''Winger'',
               stats = [''goals'' \<mapsto> 7, ''assists'' \<mapsto> 5, ''appearances'' \<mapsto> 30,
                        ''market_value'' \<mapsto> 40000000]\<rparr>]\<rparr>"

definition neg_row1 :: player_row where
  "neg_row1 = \<lparr>name = ''P'', player_position = ''Forward'', stats = [''goals'' \<mapsto> - 2]\<rparr>"

definition neg_row2 :: player_row where
  "neg_row2 = \<lparr>name = ''Q'', player_position = ''Forward'', stats = [''goals'' \<mapsto> - 1]\<rparr>"

definition neg_frame :: players_frame where
  "neg_frame = \<lparr>columns = [''goals''], rows = [neg_row1, neg_row2]\<rparr>"

section \<open>The WeightedScorer of the specification\<close>

text \<open>
  From the specification's words: the metrics of the WeightMap that are present for the
  entity (the entity has the normalised column of the metric, and its cell is defined),
  the accumulated sum of weight times normalised value over them, the total weight
  used, and the final score \<open>accumulated_sum / total_weight_used * 100\<close>, or 0 if the
  total weight used is 0.  The entity is given by the labels of its row and its cells.
\<close>

definition present_metrics ::
  "(string \<times> real) list \<Rightarrow> string list \<Rightarrow> (string \<rightharpoonup> real) \<Rightarrow> (string \<times> real) list" where
  "present_metrics weights labels cells =
     filter (\<lambda>e. norm_label (fst e) \<in> set labels \<and> cells (norm_label (fst e)) \<noteq> None) weights"

definition spec_weighted_score ::
  "(string \<times> real) list \<Rightarrow> string list \<Rightarrow> (string \<rightharpoonup> real) \<Rightarrow> real" where
  "spec_weighted_score weights labels cells =
     (let used = present_metrics weights labels cells;
          accumulated_sum = sum_list (map (\<lambda>e. snd e * the (cells (norm_label (fst e)))) used);
          total_weight_used = sum_list (map snd used)
      in if total_weight_used = 0 then 0 else accumulated_sum / total_weight_used * 100)"

text \<open>
  The position's rows of a table, as \<open>calculate_player_scores\<close> selects them.
\<close>

definition position_rows :: "players_frame \<Rightarrow> string \<Rightarrow> players_frame" where
  "position_rows players_data position =
     players_data\<lparr>rows := filter (\<lambda>r. player_position r = position) (rows players_data)\<rparr>"

text \<open>
  Invariant of \<open>normalized_data\<close>, for a table that came with the columns \<open>cols0\<close>:
  every defined cell of any other column lies in \<open>[0, 100]\<close>.
\<close>

definition norm_cells_in_range :: "string list \<Rightarrow> players_frame \<Rightarrow> bool" where
  "norm_cells_in_range cols0 df =
     (\<forall>r \<in> set (rows df). \<forall>l \<in> set (columns df). l \<notin> set cols0 \<longrightarrow>
        (\<forall>v. stats r l = Some v \<longrightarrow> 0 \<le> v \<and> v \<le> 100))"

text \<open>
  Concrete tables: one Forward; four Forwards of which one has no goals cell; two teams.
\<close>

definition solo_frame :: players_frame where
  "solo_frame =
     \<lparr>columns = [''goals'', ''assists'', ''appearances'', ''market_value''],
      rows = [\<lparr>name = ''Solo'', player_position = ''Forward'',
               stats = [''goals'' \<mapsto> 10, ''assists'' \<mapsto> 4, ''appearances'' \<mapsto> 30,
                        ''market_value'' \<mapsto> 1000]\<rparr>]\<rparr>"

definition row_a :: player_row where
  "row_a = \<lparr>name = ''A'', player_position = ''Forward'', stats = [''goals'' \<mapsto> 10]\<rparr>"

definition row_b :: player_row where
  "row_b = \<lparr>name = ''B'', player_position = ''Forward'', stats = [''goals'' \<mapsto> 5]\<rparr>"

definition row_c :: player_row where
  "row_c = \<lparr>name = ''C'', player_position = ''Forward'', stats = Map.empty\<rparr>"

definition row_d :: player_row where
  "row_d = \<lparr>name = ''D'', player_position = ''Forward'', stats = [''goals'' \<mapsto> 0]\<rparr>"

definition frame4 :: players_frame where
  "frame4 = \<lparr>columns = [''goals''], rows = [row_a, row_b, row_c, row_d]\<rparr>"

definition teams2 :: "team_row list" where
  "teams2 =
     [\<lparr>team = ''X'', league_position = 1, goals_for = 80, goals_against = 30,
       possession_avg = 60, pass_accuracy = 85, shots_per_game = 15, clean_sheets = 12\<rparr>,
      \<lparr>team = ''Y'', league_position = 2, goals_for = 60, goals_against = 40,
       possession_avg = 50, pass_accuracy = 85, shots_per_game = 16, clean_sheets = 10\<rparr>]"

section \<open>Head-to-head comparison\<close>

text \<open>
  Which of two cells is ahead: the greater one, when both are defined, they differ and
  the maximum is positive; neither otherwise.  The normalised values of a head-to-head
  comparison are 100 for the player ahead and 0 for the other, and 50 for both when
  neither is ahead.
\<close>

datatype ahead = First | Second | Neither

definition who_is_ahead :: "real option \<Rightarrow> real option \<Rightarrow> ahead" where
  "who_is_ahead a b =
     (case (a, b) of
        (Some x, Some y) \<Rightarrow>
          if x \<noteq> y \<and> 0 < max x y then (if y < x then First else Second) else Neither
      | _ \<Rightarrow> Neither)"

fun head_to_head :: "ahead \<Rightarrow> real \<times> real" where
  "head_to_head First = (100, 0)"
| "head_to_head Second = (0, 100)"
| "head_to_head Neither = (50, 50)"

text \<open>
  Who is ahead on a metric between two players passed to \<open>compare_players\<close>, by their
  cells in the two-row table.
\<close>

definition ahead_on :: "player_data \<Rightarrow> player_data \<Rightarrow> string \<Rightarrow> ahead" where
  "ahead_on p1 p2 m = who_is_ahead (stats (series_row p1) m) (stats (series_row p2) m)"

text \<open>
  The score of one side of a head-to-head comparison, from who is ahead on each metric:
  over the weighted metrics that are columns of the table, the sum of weight times the
  side's head-to-head value, divided by the sum of these weights, times 100 (0 if no
  weighted metric is a column).  The comparison reports the two names, the two scores
  and as winner the name with the strictly greater score, \<open>Draw\<close> otherwise; the scores
  are stored by name, so that two players of the same name both get the score of the
  second.
\<close>

definition head_to_head_score ::
  "(real \<times> real \<Rightarrow> real) \<Rightarrow> (string \<times> real) list \<Rightarrow> string list \<Rightarrow> (string \<Rightarrow> ahead) \<Rightarrow> real" where
  "head_to_head_score side weights cols ahd =
     (let used = filter (\<lambda>e. fst e \<in> set cols) weights;
          accumulated_sum = sum_list (map (\<lambda>e. snd e * side (head_to_head (ahd (fst e)))) used);
          total_weight_used = sum_list (map snd used)
      in if total_weight_used = 0 then 0 else accumulated_sum / total_weight_used * 100)"

definition head_to_head_result ::
  "string \<Rightarrow> string \<Rightarrow> (string \<times> real) list \<Rightarrow> string list \<Rightarrow> (string \<Rightarrow> ahead) \<Rightarrow> comparison" where
  "head_to_head_result n1 n2 weights cols ahd =
     (let s1 = head_to_head_score fst weights cols ahd;
          s2 = head_to_head_score snd weights cols ahd;
          score1 = (if n1 = n2 then s2 else s1)
      in Comparison n1 score1 n2 s2
           (if score1 > s2 then n1 else if s2 > score1 then n2 else ''Draw''))"

text \<open>
  \<open>normalized_data\<close> for a table of two rows \<open>r1\<close>, \<open>r2\<close> with the columns
  \<open>cols0\<close>, after the metrics \<open>S\<close> have been normalised: its columns are those of the
  table and the normalised columns of \<open>S\<close>; its two rows keep their names and cells, and
  their cells in the normalised column of a metric of \<open>S\<close> are the head-to-head values
  of the two players' cells of that metric.
\<close>

definition head_to_head_table ::
  "string list \<Rightarrow> player_row \<Rightarrow> player_row \<Rightarrow> string set \<Rightarrow> players_frame \<Rightarrow> bool" where
  "head_to_head_table cols0 r1 r2 S df =
     (set (columns df) = set cols0 \<union> norm_label ` S
      \<and> (\<exists>r1' r2'. rows df = [r1', r2']
            \<and> name r1' = name r1 \<and> name r2' = name r2
            \<and> (\<forall>m \<in> S. stats r1' (norm_label m)
                          = Some (fst (head_to_head (who_is_ahead (stats r1 m) (stats r2 m))))
                        \<and> stats r2' (norm_label m)
                          = Some (snd (head_to_head (who_is_ahead (stats r1 m) (stats r2 m)))))
            \<and> (\<forall>l. l \<notin> norm_label ` S \<longrightarrow> stats r1' l = stats r1 l \<and> stats r2' l = stats r2 l)))"

text \<open>
  Players at the same position and labels: two pairs with the same names, and the
  second player of the first pair under the name of the first.
\<close>

definition fwd1 :: player_data where
  "fwd1 = \<lparr>name = ''Kylian'', player_position = ''Forward'',
            stats = [''age'' \<mapsto> 26, ''goals'' \<mapsto> 31, ''assists'' \<mapsto> 9,
                     ''market_value'' \<mapsto> 180, ''appearances'' \<mapsto> 36],
            stat_keys = [''age'', ''goals'', ''assists'', ''market_value'', ''appearances'']\<rparr>"

definition fwd2 :: player_data where
  "fwd2 = \<lparr>name = ''Vini'', player_position = ''Forward'',
            stats = [''age'' \<mapsto> 24, ''goals'' \<mapsto> 21, ''assists'' \<mapsto> 12,
                     ''market_value'' \<mapsto> 200, ''appearances'' \<mapsto> 35],
            stat_keys = [''age'', ''goals'', ''assists'', ''market_value'', ''appearances'']\<rparr>"

definition fwd1' :: player_data where
  "fwd1' = \<lparr>name = ''Kylian'', player_position = ''Forward'',
            stats = [''age'' \<mapsto> 30, ''goals'' \<mapsto> 22, ''assists'' \<mapsto> 1,
                     ''market_value'' \<mapsto> 10, ''appearances'' \<mapsto> 38],
            stat_keys = [''age'', ''goals'', ''assists'', ''market_value'', ''appearances'']\<rparr>"

definition fwd2' :: player_data where
  "fwd2' = \<lparr>name = ''Vini'', player_position = ''Forward'',
            stats = [''age'' \<mapsto> 19, ''goals'' \<mapsto> 21, ''assists'' \<mapsto> 30,
                     ''market_value'' \<mapsto> 900, ''appearances'' \<mapsto> 2],
            stat_keys = [''age'', ''goals'', ''assists'', ''market_value'', ''appearances'']\<rparr>"

definition fwd2k :: player_data where
  "fwd2k = fwd2\<lparr>name := ''Kylian''\<rparr>"

definition weighted_metrics :: "string \<Rightarrow> string list" where
  "weighted_metrics position =
     (case map_of position_weights position of Some w \<Rightarrow> map fst w | None \<Rightarrow> [])"

section \<open>Auxiliary definitions for the proofs\<close>

text \<open>
  The invariant of the main loop of \<open>_balance_tiers\<close>: the running counts are the
  numbers of entities assigned so far, and no count exceeds its target.
\<close>

definition balanced_inv :: "(tier \<Rightarrow> nat) \<Rightarrow> tier_assignment \<Rightarrow> bool" where
  "balanced_inv cc bt = (\<forall>t. tier_count t bt = cc t \<and> cc t \<le> ideal_distribution t)"

text \<open>Concrete score maps: twenty entities, twenty-one entities, four entities.\<close>

definition scores20 :: score_map where
  "scores20 =
     [(''a'', 3), (''b'', 8), (''c'', 13), (''d'', 18), (''e'', 23), (''f'', 28),
      (''g'', 33), (''h'', 38), (''i'', 43), (''j'', 48), (''k'', 53), (''l'', 58),
      (''m'', 63), (''n'', 68), (''o'', 73), (''p'', 78), (''q'', 83), (''r'', 88),
      (''s'', 93), (''t'', 98)]"

definition scores21 :: score_map where
  "scores21 =
     [(''a'', 100), (''b'', 96), (''c'', 92), (''d'', 88), (''e'', 84), (''f'', 80),
      (''g'', 76), (''h'', 72), (''i'', 68), (''j'', 64), (''k'', 60), (''l'', 56),
      (''m'', 52), (''n'', 48), (''o'', 44), (''p'', 40), (''q'', 36), (''r'', 32),
      (''s'', 28), (''t'', 24), (''u'', 20)]"

definition tiers21 :: tier_assignment where
  "tiers21 =
     [(''a'', TierS), (''b'', TierS), (''c'', TierS), (''d'', TierA), (''e'', TierA),
      (''f'', TierA), (''g'', TierA), (''h'', TierB), (''i'', TierB), (''j'', TierB),
      (''k'', TierB), (''l'', TierB), (''m'', TierC), (''n'', TierC), (''o'', TierC),
      (''p'', TierC), (''q'', TierC), (''r'', TierD), (''s'', TierD), (''t'', TierD)]"

definition scores4 :: score_map where
  "scores4 = [(''a'', 95), (''b'', 80), (''c'', 80), (''d'', 40)]"

definition tiers4 :: tier_assignment where
  "tiers4 = [(''a'', TierS), (''b'', TierS), (''c'', TierS), (''d'', TierA)]"

section \<open>Tier assignment: lemmas and theorems\<close>

lemma map_of_dict_set: "map_of (dict_set k v d) = (map_of d)(k \<mapsto> v)"
  by (induction d) (auto simp: fun_eq_iff)

lemma dict_set_fresh: "k \<notin> fst ` set d \<Longrightarrow> dict_set k v d = d @ [(k, v)]"
  by (induction d) auto

lemma dict_set_keys: "fst ` set (dict_set k v d) = insert k (fst ` set d)"
proof (induction d)
  case Nil
  show ?case by simp
next
  case (Cons e d)
  obtain k' v' where e: "e = (k', v')" by (cases e)
  show ?case
  proof (cases "k = k'")
    case True
    then show ?thesis using e by simp
  next
    case False
    then show ?thesis using e Cons.IH by (simp add: insert_commute)
  qed
qed

lemma find_rev_None: "find P xs = None \<Longrightarrow> find P (rev xs) = None"
  by (simp add: find_None_iff)

lemma balance_step_simp:
  "balance_step (cc, bt) (nm, score) =
     (case find (\<lambda>t. cc t < ideal_distribution t) tier_order of
        Some t \<Rightarrow> (cc(t := cc t + 1), dict_set nm t bt)
      | None \<Rightarrow> (cc, bt))"
  by (simp add: balance_step_def find_rev_None split: option.splits)

lemma tier_count_append: "tier_count t (xs @ ys) = tier_count t xs + tier_count t ys"
  by (simp add: tier_count_def)

lemma length_tier_counts:
  "length ta = tier_count TierS ta + tier_count TierA ta + tier_count TierB ta
               + tier_count TierC ta + tier_count TierD ta"
proof (induction ta)
  case Nil
  show ?case by (simp add: tier_count_def)
next
  case (Cons e ta)
  then show ?case by (cases "snd e") (simp_all add: tier_count_def)
qed

lemma balanced_inv_init: "balanced_inv (\<lambda>_. 0) []"
  by (simp add: balanced_inv_def tier_count_def)

lemma find_tier_order_None:
  "find P tier_order = None \<longleftrightarrow> \<not> P TierS \<and> \<not> P TierA \<and> \<not> P TierB \<and> \<not> P TierC \<and> \<not> P TierD"
  by (simp add: tier_order_def)

lemma find_tier_order_Some: "find P tier_order = Some t \<Longrightarrow> P t"
  by (auto simp: find_Some_iff)

lemma find_tier_order_first:
  "find P tier_order = Some t \<Longrightarrow> P t' \<Longrightarrow> tier_rank t \<le> tier_rank t'"
  by (cases t'; cases t) (auto simp: tier_order_def split: if_splits)

lemma balanced_inv_length: "balanced_inv cc bt \<Longrightarrow> length bt \<le> 20"
proof -
  assume "balanced_inv cc bt"
  then have "tier_count t bt \<le> ideal_distribution t" for t
    by (simp add: balanced_inv_def)
  from this[of TierS] this[of TierA] this[of TierB] this[of TierC] this[of TierD]
  show ?thesis using length_tier_counts[of bt] by simp
qed

lemma balanced_inv_room:
  assumes "balanced_inv cc bt" "length bt < 20"
  shows "\<exists>t. find (\<lambda>t. cc t < ideal_distribution t) tier_order = Some t"
proof (rule ccontr)
  assume "\<not> ?thesis"
  then have "find (\<lambda>t. cc t < ideal_distribution t) tier_order = None" by simp
  then have full: "cc t \<ge> ideal_distribution t" for t
    by (cases t) (simp_all add: find_tier_order_None)
  have "tier_count t bt = ideal_distribution t" for t
    using assms(1) full[of t] by (simp add: balanced_inv_def le_antisym)
  from this[of TierS] this[of TierA] this[of TierB] this[of TierC] this[of TierD]
  have "length bt = 20" using length_tier_counts[of bt] by simp
  with assms(2) show False by simp
qed

lemma balance_step_inv:
  assumes "balanced_inv cc bt" "nm \<notin> fst ` set bt"
    and "balance_step (cc, bt) (nm, score) = (cc', bt')"
  shows "balanced_inv cc' bt'"
proof (cases "find (\<lambda>t. cc t < ideal_distribution t) tier_order")
  case None
  with assms show ?thesis by (simp add: balance_step_simp)
next
  case (Some t)
  then have room: "cc t < ideal_distribution t" by (rule find_tier_order_Some)
  from Some assms(3) have eq: "cc' = cc(t := cc t + 1)" "bt' = dict_set nm t bt"
    by (simp_all add: balance_step_simp)
  show ?thesis
    using assms(1) room unfolding eq
    by (auto simp: balanced_inv_def dict_set_fresh[OF assms(2)] tier_count_append tier_count_def)
qed

lemma balance_step_keys:
  assumes "balance_step (cc, bt) (nm, score) = (cc', bt')"
  shows "fst ` set bt' \<subseteq> insert nm (fst ` set bt)"
    and "nm \<notin> fst ` set bt \<Longrightarrow> distinct (map fst bt) \<Longrightarrow> distinct (map fst bt')"
    and "k \<noteq> nm \<Longrightarrow> map_of bt' k = map_of bt k"
proof -
  show "fst ` set bt' \<subseteq> insert nm (fst ` set bt)"
  proof (cases "find (\<lambda>t. cc t < ideal_distribution t) tier_order")
    case None
    with assms show ?thesis by (simp add: balance_step_simp subset_insertI)
  next
    case (Some t)
    with assms have "bt' = dict_set nm t bt" by (simp add: balance_step_simp)
    then show ?thesis by (simp only: dict_set_keys subset_refl)
  qed
  show "nm \<notin> fst ` set bt \<Longrightarrow> distinct (map fst bt) \<Longrightarrow> distinct (map fst bt')"
    using assms by (auto simp: balance_step_simp dict_set_fresh split: option.splits)
  show "k \<noteq> nm \<Longrightarrow> map_of bt' k = map_of bt k"
    using assms by (auto simp: balance_step_simp map_of_dict_set split: option.splits)
qed

lemma balance_step_assigns:
  assumes "balanced_inv cc bt" "length bt < 20" "nm \<notin> fst ` set bt"
    and "balance_step (cc, bt) (nm, score) = (cc', bt')"
  shows "map fst bt' = map fst bt @ [nm]"
proof -
  from balanced_inv_room[OF assms(1,2)] obtain t
    where "find (\<lambda>t. cc t < ideal_distribution t) tier_order = Some t" by blast
  with assms(3,4) show ?thesis by (auto simp: balance_step_simp dict_set_fresh)
qed

lemma foldl_balance_inv:
  assumes "balanced_inv cc bt" "distinct (map fst xs)" "fst ` set xs \<inter> fst ` set bt = {}"
    and "foldl balance_step (cc, bt) xs = (cc', bt')"
  shows "balanced_inv cc' bt' \<and> fst ` set bt' \<subseteq> fst ` set bt \<union> fst ` set xs
         \<and> (distinct (map fst bt) \<longrightarrow> distinct (map fst bt'))"
  using assms
proof (induction xs arbitrary: cc bt)
  case Nil
  then show ?case by simp
next
  case (Cons x xs)
  obtain nm score where x: "x = (nm, score)" by (cases x)
  obtain cc1 bt1 where st: "balance_step (cc, bt) (nm, score) = (cc1, bt1)"
    by (cases "balance_step (cc, bt) (nm, score)")
  from Cons.prems(3) x have fresh: "nm \<notin> fst ` set bt" by auto
  have inv1: "balanced_inv cc1 bt1"
    by (rule balance_step_inv[OF Cons.prems(1) fresh st])
  have keys1: "fst ` set bt1 \<subseteq> insert nm (fst ` set bt)"
    by (rule balance_step_keys(1)[OF st])
  have d1: "distinct (map fst xs)" using Cons.prems(2) by simp
  have "nm \<notin> fst ` set xs" using Cons.prems(2) x by (simp add: image_iff)
  moreover have "fst ` set xs \<inter> fst ` set bt = {}" using Cons.prems(3) by auto
  ultimately have disj1: "fst ` set xs \<inter> fst ` set bt1 = {}"
    using keys1 by blast
  have run: "foldl balance_step (cc1, bt1) xs = (cc', bt')"
    using Cons.prems(4) x st by simp
  from Cons.IH[OF inv1 d1 disj1 run]
  have IH: "balanced_inv cc' bt'" "fst ` set bt' \<subseteq> fst ` set bt1 \<union> fst ` set xs"
    "distinct (map fst bt1) \<longrightarrow> distinct (map fst bt')" by simp_all
  have "distinct (map fst bt) \<longrightarrow> distinct (map fst bt')"
    using IH(3) balance_step_keys(2)[OF st fresh] by blast
  moreover have "fst ` set bt' \<subseteq> fst ` set bt \<union> fst ` set (x # xs)"
    using IH(2) keys1 x by auto
  ultimately show ?case using IH(1) by blast
qed

lemma foldl_balance_all_assigned:
  assumes "balanced_inv cc bt" "distinct (map fst xs)" "fst ` set xs \<inter> fst ` set bt = {}"
    and "length bt + length xs \<le> 20"
    and "foldl balance_step (cc, bt) xs = (cc', bt')"
  shows "map fst bt' = map fst bt @ map fst xs"
  using assms
proof (induction xs arbitrary: cc bt)
  case Nil
  then show ?case by simp
next
  case (Cons x xs)
  obtain nm score where x: "x = (nm, score)" by (cases x)
  obtain cc1 bt1 where st: "balance_step (cc, bt) (nm, score) = (cc1, bt1)"
    by (cases "balance_step (cc, bt) (nm, score)")
  from Cons.prems(3) x have fresh: "nm \<notin> fst ` set bt" by auto
  from Cons.prems(4) have lt: "length bt < 20" by simp
  have inv1: "balanced_inv cc1 bt1"
    by (rule balance_step_inv[OF Cons.prems(1) fresh st])
  have keys1: "map fst bt1 = map fst bt @ [nm]"
    by (rule balance_step_assigns[OF Cons.prems(1) lt fresh st])
  have "length (map fst bt1) = length (map fst bt @ [nm])" by (simp only: keys1)
  then have len1: "length bt1 = length bt + 1" by simp
  have d1: "distinct (map fst xs)" using Cons.prems(2) by simp
  have "set (map fst bt1) = set (map fst bt @ [nm])" by (simp only: keys1)
  then have "fst ` set bt1 = insert nm (fst ` set bt)" by simp
  moreover have "nm \<notin> fst ` set xs" using Cons.prems(2) x by (simp add: image_iff)
  moreover have "fst ` set xs \<inter> fst ` set bt = {}" using Cons.prems(3) by auto
  ultimately have disj1: "fst ` set xs \<inter> fst ` set bt1 = {}"
    by auto
  have len: "length bt1 + length xs \<le> 20" using Cons.prems(4) len1 by simp
  have run: "foldl balance_step (cc1, bt1) xs = (cc', bt')"
    using Cons.prems(5) x st by simp
  have "map fst bt' = map fst bt1 @ map fst xs"
    by (rule Cons.IH[OF inv1 d1 disj1 len run])
  also have "\<dots> = (map fst bt @ [nm]) @ map fst xs" by (simp only: keys1)
  also have "\<dots> = map fst bt @ map fst (x # xs)" by (simp add: x)
  finally show ?case .
qed

lemma foldl_balance_lookup_other:
  assumes "k \<notin> fst ` set xs" "foldl balance_step (cc, bt) xs = (cc', bt')"
  shows "map_of bt' k = map_of bt k"
  using assms
proof (induction xs arbitrary: cc bt)
  case Nil
  then show ?case by simp
next
  case (Cons x xs)
  obtain nm score where x: "x = (nm, score)" by (cases x)
  obtain cc1 bt1 where st: "balance_step (cc, bt) (nm, score) = (cc1, bt1)"
    by (cases "balance_step (cc, bt) (nm, score)")
  from Cons.prems(1) x have ne: "k \<noteq> nm" and rest: "k \<notin> fst ` set xs" by auto
  have run: "foldl balance_step (cc1, bt1) xs = (cc', bt')"
    using Cons.prems(2) x st by simp
  have "map_of bt' k = map_of bt1 k" by (rule Cons.IH[OF rest run])
  also have "\<dots> = map_of bt k" by (rule balance_step_keys(3)[OF st ne])
  finally show ?case .
qed

lemma balance_step_counts_mono:
  assumes "balance_step (cc, bt) (nm, score) = (cc', bt')"
  shows "cc t \<le> cc' t"
  using assms by (auto simp: balance_step_simp split: option.splits)

lemma later_has_room:
  assumes "distinct (map fst xs)" "foldl balance_step (cc, bt) xs = (cc', bt')"
    and "(b, sb) \<in> set xs" "b \<notin> fst ` set bt" "map_of bt' b = Some tb"
  shows "cc tb < ideal_distribution tb"
  using assms
proof (induction xs arbitrary: cc bt)
  case Nil
  then show ?case by simp
next
  case (Cons x xs)
  obtain nm score where x: "x = (nm, score)" by (cases x)
  obtain cc1 bt1 where st: "balance_step (cc, bt) (nm, score) = (cc1, bt1)"
    by (cases "balance_step (cc, bt) (nm, score)")
  have run: "foldl balance_step (cc1, bt1) xs = (cc', bt')"
    using Cons.prems(2) x st by simp
  have d: "distinct (map fst xs)" and tfresh: "nm \<notin> fst ` set xs"
    using Cons.prems(1) x by (simp_all add: image_iff)
  show ?case
  proof (cases "b = nm")
    case True
    with tfresh have "map_of bt' b = map_of bt1 b"
      using foldl_balance_lookup_other[OF _ run, of b] by simp
    with Cons.prems(5) have look: "map_of bt1 nm = Some tb" using True by simp
    show ?thesis
    proof (cases "find (\<lambda>t. cc t < ideal_distribution t) tier_order")
      case None
      with st have "bt1 = bt" by (simp add: balance_step_simp)
      with look have "map_of bt nm = Some tb" by simp
      then have "nm \<in> fst ` set bt" by (metis map_of_eq_None_iff option.distinct(1))
      with Cons.prems(4) True show ?thesis by simp
    next
      case (Some t)
      with st have "bt1 = dict_set nm t bt" by (simp add: balance_step_simp)
      with look have "t = tb" by (simp add: map_of_dict_set)
      with Some show ?thesis using find_tier_order_Some by fastforce
    qed
  next
    case False
    with Cons.prems(3) x have mem: "(b, sb) \<in> set xs" by simp
    have "b \<notin> fst ` set bt1"
      using balance_step_keys(1)[OF st] Cons.prems(4) False by auto
    from Cons.IH[OF d run mem this Cons.prems(5)]
    have "cc1 tb < ideal_distribution tb" .
    with balance_step_counts_mono[OF st, of tb] show ?thesis by simp
  qed
qed

lemma head_best:
  assumes "distinct (map fst ((a, sa) # xs))"
    and "foldl balance_step (cc, bt) ((a, sa) # xs) = (cc', bt')"
    and "a \<notin> fst ` set bt" "b \<notin> fst ` set bt" "(b, sb) \<in> set xs"
    and "map_of bt' a = Some ta" "map_of bt' b = Some tb"
  shows "tier_rank ta \<le> tier_rank tb"
proof -
  obtain cc1 bt1 where st: "balance_step (cc, bt) (a, sa) = (cc1, bt1)"
    by (cases "balance_step (cc, bt) (a, sa)")
  have run: "foldl balance_step (cc1, bt1) xs = (cc', bt')"
    using assms(2) st by simp
  have d: "distinct (map fst xs)" and afresh: "a \<notin> fst ` set xs"
    using assms(1) by (simp_all add: image_iff)
  from assms(5) afresh have ne: "b \<noteq> a" by (auto simp: image_iff)
  have "map_of bt' a = map_of bt1 a"
    by (rule foldl_balance_lookup_other[OF afresh run])
  with assms(6) have look: "map_of bt1 a = Some ta" by simp
  have "b \<notin> fst ` set bt1"
    using balance_step_keys(1)[OF st] assms(4) ne by auto
  from later_has_room[OF d run assms(5) this assms(7)]
  have "cc1 tb < ideal_distribution tb" .
  with balance_step_counts_mono[OF st, of tb]
  have room: "cc tb < ideal_distribution tb" by simp
  show ?thesis
  proof (cases "find (\<lambda>t. cc t < ideal_distribution t) tier_order")
    case None
    with st have "bt1 = bt" by (simp add: balance_step_simp)
    with look have "map_of bt a = Some ta" by simp
    then have "a \<in> fst ` set bt" by (metis map_of_eq_None_iff option.distinct(1))
    with assms(3) show ?thesis by simp
  next
    case (Some t)
    with st have "bt1 = dict_set a t bt" by (simp add: balance_step_simp)
    with look have "t = ta" by (simp add: map_of_dict_set)
    with Some room show ?thesis using find_tier_order_first by blast
  qed
qed

lemma percentile_nonempty: "a \<noteq> [] \<Longrightarrow> \<exists>v. percentile a q = Inr v"
  by (simp add: percentile_def Let_def)

lemma sorted_teams_of_Nil_iff: "sorted_teams_of sm = [] \<longleftrightarrow> sm = []"
proof -
  have "length (sorted_teams_of sm) = length sm" by (simp add: sorted_teams_of_def)
  then show ?thesis by (metis length_0_conv)
qed

lemma assign_tiers_nonempty:
  assumes "sm \<noteq> []"
  shows "assign_tiers sm = Inr (rebalance_only sm)"
proof -
  have ne: "map snd (sorted_teams_of sm) \<noteq> []"
    using assms by (simp add: sorted_teams_of_Nil_iff)
  obtain v1 where p1: "percentile (map snd (sorted_teams_of sm)) 85 = Inr v1"
    using percentile_nonempty[OF ne] by blast
  obtain v2 where p2: "percentile (map snd (sorted_teams_of sm)) 65 = Inr v2"
    using percentile_nonempty[OF ne] by blast
  obtain v3 where p3: "percentile (map snd (sorted_teams_of sm)) 40 = Inr v3"
    using percentile_nonempty[OF ne] by blast
  obtain v4 where p4: "percentile (map snd (sorted_teams_of sm)) 20 = Inr v4"
    using percentile_nonempty[OF ne] by blast
  show ?thesis
    by (simp add: assign_tiers_def Let_def p1 p2 p3 p4 balance_tiers_def rebalance_only_def)
qed

lemma assign_tiers_empty: "assign_tiers [] = Inl IndexError"
  by (simp add: assign_tiers_def sorted_teams_of_def percentile_def)

lemma balance_tiers_ignores_labels: "balance_tiers tiers st = balance_tiers tiers' st"
  by (simp add: balance_tiers_def)

text \<open>
  Claim C7 (the two-pass pipeline equals the rebalance pass alone, for every score map)
  fails on the empty score map: the percentile pass raises there, while the rebalance
  pass alone returns the empty assignment.  On every other score map the two agree
  (\<open>assign_tiers_nonempty\<close>), and the rebalance pass never reads the first-pass labels
  (\<open>balance_tiers_ignores_labels\<close>).
\<close>

theorem assign_tiers_differs_from_rebalance_only_on_empty:
  "assign_tiers [] = Inl IndexError \<and> rebalance_only [] = []
   \<and> assign_tiers [] \<noteq> Inr (rebalance_only [])"
  by (simp add: assign_tiers_empty rebalance_only_def sorted_teams_of_def)

lemma sorted_teams_of_keys:
  "distinct (map fst (sorted_teams_of sm)) = distinct (map fst sm)"
  "fst ` set (sorted_teams_of sm) = fst ` set sm"
  "length (sorted_teams_of sm) = length sm"
proof -
  have "mset (sorted_teams_of sm) = mset sm" by (simp add: sorted_teams_of_def)
  then have "mset (map fst (sorted_teams_of sm)) = mset (map fst sm)" by simp
  then show "distinct (map fst (sorted_teams_of sm)) = distinct (map fst sm)"
    by (rule mset_eq_imp_distinct_iff)
  show "fst ` set (sorted_teams_of sm) = fst ` set sm" by (simp add: sorted_teams_of_def)
  show "length (sorted_teams_of sm) = length sm" by (simp add: sorted_teams_of_def)
qed

lemma rebalance_only_inv:
  assumes "distinct (map fst sm)"
  shows "\<exists>cc. balanced_inv cc (rebalance_only sm)"
    and "fst ` set (rebalance_only sm) \<subseteq> fst ` set sm"
    and "distinct (map fst (rebalance_only sm))"
proof -
  obtain cc' bt' where run: "foldl balance_step ((\<lambda>_. 0), []) (sorted_teams_of sm) = (cc', bt')"
    by (cases "foldl balance_step ((\<lambda>_. 0), []) (sorted_teams_of sm)")
  then have r: "rebalance_only sm = bt'" by (simp add: rebalance_only_def)
  have d: "distinct (map fst (sorted_teams_of sm))" using assms by (simp add: sorted_teams_of_keys)
  have disj: "fst ` set (sorted_teams_of sm) \<inter> fst ` set ([] :: tier_assignment) = {}" by simp
  from foldl_balance_inv[OF balanced_inv_init d disj run]
  have *: "balanced_inv cc' bt'" "fst ` set bt' \<subseteq> fst ` set (sorted_teams_of sm)"
    "distinct (map fst bt')" by simp_all
  show "\<exists>cc. balanced_inv cc (rebalance_only sm)" using *(1) r by blast
  show "fst ` set (rebalance_only sm) \<subseteq> fst ` set sm" using *(2) r by (simp add: sorted_teams_of_keys)
  show "distinct (map fst (rebalance_only sm))" using *(3) r by simp
qed

lemma rebalance_only_full:
  assumes "distinct (map fst sm)" "length sm \<le> 20"
  shows "map fst (rebalance_only sm) = map fst (sorted_teams_of sm)"
proof -
  obtain cc' bt' where run: "foldl balance_step ((\<lambda>_. 0), []) (sorted_teams_of sm) = (cc', bt')"
    by (cases "foldl balance_step ((\<lambda>_. 0), []) (sorted_teams_of sm)")
  then have r: "rebalance_only sm = bt'" by (simp add: rebalance_only_def)
  have d: "distinct (map fst (sorted_teams_of sm))" using assms by (simp add: sorted_teams_of_keys)
  have disj: "fst ` set (sorted_teams_of sm) \<inter> fst ` set ([] :: tier_assignment) = {}" by simp
  have len: "length ([] :: tier_assignment) + length (sorted_teams_of sm) \<le> 20"
    using assms(2) by (simp add: sorted_teams_of_keys)
  from foldl_balance_all_assigned[OF balanced_inv_init d disj len run] r
  show ?thesis by simp
qed

text \<open>
  Claim C4: for a score map of exactly twenty entities (a dict, so its keys are
  distinct), \<open>assign_tiers\<close> returns an assignment with 3 entities in S, 4 in A, 5 in B,
  5 in C and 3 in D, whose keys are distinct and are exactly the entities of the map.
\<close>

theorem assign_tiers_exact_distribution:
  assumes "distinct (map fst team_scores)" and "length team_scores = 20"
  shows "\<exists>ta. assign_tiers team_scores = Inr ta
           \<and> tier_count TierS ta = 3 \<and> tier_count TierA ta = 4 \<and> tier_count TierB ta = 5
           \<and> tier_count TierC ta = 5 \<and> tier_count TierD ta = 3
           \<and> distinct (map fst ta) \<and> set (map fst ta) = set (map fst team_scores)"
proof -
  let ?ta = "rebalance_only team_scores"
  from assms(2) have "team_scores \<noteq> []" by auto
  then have ret: "assign_tiers team_scores = Inr ?ta" by (rule assign_tiers_nonempty)
  from assms(2) have "length team_scores \<le> 20" by simp
  from rebalance_only_full[OF assms(1) this]
  have keys: "map fst ?ta = map fst (sorted_teams_of team_scores)" .
  have "length (map fst ?ta) = length (map fst (sorted_teams_of team_scores))"
    by (simp only: keys)
  then have len: "length ?ta = 20" using assms(2) by (simp add: sorted_teams_of_keys)
  have "set (map fst ?ta) = set (map fst (sorted_teams_of team_scores))" by (simp only: keys)
  then have ks: "set (map fst ?ta) = set (map fst team_scores)"
    by (simp add: sorted_teams_of_keys)
  from rebalance_only_inv(1)[OF assms(1)] obtain cc where "balanced_inv cc ?ta" by blast
  then have le: "tier_count t ?ta \<le> ideal_distribution t" for t
    by (simp add: balanced_inv_def)
  note l = le[of TierS] le[of TierA] le[of TierB] le[of TierC] le[of TierD]
  have sum: "tier_count TierS ?ta + tier_count TierA ?ta + tier_count TierB ?ta
               + tier_count TierC ?ta + tier_count TierD ?ta = 20"
    using length_tier_counts[of ?ta] len by simp
  have "tier_count TierS ?ta = 3" using l sum by simp
  moreover have "tier_count TierA ?ta = 4" using l sum by simp
  moreover have "tier_count TierB ?ta = 5" using l sum by simp
  moreover have "tier_count TierC ?ta = 5" using l sum by simp
  moreover have "tier_count TierD ?ta = 3" using l sum by simp
  moreover have "distinct (map fst ?ta)" by (rule rebalance_only_inv(3)[OF assms(1)])
  ultimately show ?thesis using ret ks by blast
qed

theorem assign_tiers_exact_distribution_witness:
  "distinct (map fst scores20) \<and> length scores20 = 20
   \<and> (\<exists>ta. assign_tiers scores20 = Inr ta
           \<and> tier_count TierS ta = 3 \<and> tier_count TierA ta = 4 \<and> tier_count TierB ta = 5
           \<and> tier_count TierC ta = 5 \<and> tier_count TierD ta = 3
           \<and> distinct (map fst ta) \<and> set (map fst ta) = set (map fst scores20))"
proof -
  have d: "distinct (map fst scores20)" by (simp add: scores20_def)
  have l: "length scores20 = 20" by (simp add: scores20_def)
  from assign_tiers_exact_distribution[OF d l] d l show ?thesis by blast
qed

text \<open>
  Claim C9: tier assignment is monotone in score.  If \<open>a\<close> has a strictly greater score
  than \<open>b\<close> and both receive a tier, the tier of \<open>a\<close> is at least as good as the tier
  of \<open>b\<close> in the order S, A, B, C, D.
\<close>

theorem assign_tiers_monotone:
  assumes "distinct (map fst team_scores)"
    and "assign_tiers team_scores = Inr ta"
    and "map_of team_scores a = Some sa" and "map_of team_scores b = Some sb"
    and "sb < sa"
    and "map_of ta a = Some t1" and "map_of ta b = Some t2"
  shows "tier_rank t1 \<le> tier_rank t2"
proof -
  let ?st = "sorted_teams_of team_scores"
  from assms(3) have "team_scores \<noteq> []" by auto
  with assms(2) have ta: "ta = rebalance_only team_scores"
    by (simp add: assign_tiers_nonempty)
  have ina: "(a, sa) \<in> set ?st" and inb: "(b, sb) \<in> set ?st"
    using assms(3,4) by (auto simp: sorted_teams_of_def dest: map_of_SomeD)
  have d: "distinct (map fst ?st)" using assms(1) by (simp add: sorted_teams_of_keys)
  have srt: "sorted (map (\<lambda>x. - snd x) ?st)" by (simp add: sorted_teams_of_def)
  from ina obtain pre post where split: "?st = pre @ (a, sa) # post"
    by (meson split_list)
  have "(b, sb) \<notin> set pre"
  proof
    assume "(b, sb) \<in> set pre"
    then have "- sb \<le> - sa" using srt unfolding split by (auto simp: sorted_append)
    with assms(5) show False by simp
  qed
  moreover from assms(5) have "(b, sb) \<noteq> (a, sa)" by simp
  ultimately have inpost: "(b, sb) \<in> set post" using inb unfolding split by auto
  obtain cc1 bt1 where run1: "foldl balance_step ((\<lambda>_. 0), []) pre = (cc1, bt1)"
    by (cases "foldl balance_step ((\<lambda>_. 0), []) pre")
  obtain cc' bt' where run2: "foldl balance_step (cc1, bt1) ((a, sa) # post) = (cc', bt')"
    by (cases "foldl balance_step (cc1, bt1) ((a, sa) # post)")
  have "rebalance_only team_scores = snd (foldl balance_step (cc1, bt1) ((a, sa) # post))"
    unfolding rebalance_only_def split foldl_append run1 ..
  with ta run2 have tabt: "ta = bt'" by simp
  have dpre: "distinct (map fst pre)" and dpost: "distinct (map fst ((a, sa) # post))"
    and disj: "fst ` set pre \<inter> fst ` set ((a, sa) # post) = {}"
    using d unfolding split by (auto simp: image_iff)
  have "fst ` set pre \<inter> fst ` set ([] :: tier_assignment) = {}" by simp
  from foldl_balance_inv[OF balanced_inv_init dpre this run1]
  have sub: "fst ` set bt1 \<subseteq> fst ` set pre" by simp
  have afresh: "a \<notin> fst ` set bt1" using sub disj by auto
  have "fst (b, sb) \<in> fst ` set post" using inpost by (rule imageI)
  then have "b \<in> fst ` set ((a, sa) # post)" by simp
  then have bfresh: "b \<notin> fst ` set bt1" using sub disj by auto
  from head_best[OF dpost run2 afresh bfresh inpost] assms(6,7) tabt
  show ?thesis by simp
qed

theorem assign_tiers_monotone_witness:
  "distinct (map fst scores4) \<and> assign_tiers scores4 = Inr tiers4
   \<and> map_of scores4 ''c'' = Some 80 \<and> map_of scores4 ''d'' = Some 40 \<and> (40::real) < 80
   \<and> map_of tiers4 ''c'' = Some TierS \<and> map_of tiers4 ''d'' = Some TierA
   \<and> tier_rank TierS \<le> tier_rank TierA"
proof -
  have d: "distinct (map fst scores4)" by (simp add: scores4_def)
  have r: "assign_tiers scores4 = Inr tiers4"
    by (simp add: assign_tiers_nonempty rebalance_only_def sorted_teams_of_def
          balance_step_simp tier_order_def scores4_def tiers4_def)
  have a: "map_of scores4 ''c'' = Some 80" by (simp add: scores4_def)
  have b: "map_of scores4 ''d'' = Some 40" by (simp add: scores4_def)
  have lt: "(40::real) < 80" by simp
  have ta: "map_of tiers4 ''c'' = Some TierS" by (simp add: tiers4_def)
  have tb: "map_of tiers4 ''d'' = Some TierA" by (simp add: tiers4_def)
  have "tier_rank TierS \<le> tier_rank TierA"
    by (rule assign_tiers_monotone[OF d r a b lt ta tb])
  with d r a b lt ta tb show ?thesis by blast
qed

lemma rebalance_only_scores21: "rebalance_only scores21 = tiers21"
  by (simp add: rebalance_only_def scores21_def tiers21_def sorted_teams_of_def
        balance_step_simp tier_order_def)

text \<open>
  Claim C1 (total coverage above twenty entities) fails on the code.  When all five
  tiers have reached their targets, the fallback search over \<open>reversed(tier_order)\<close>
  applies the same test \<open>current_counts[tier] < ideal_distribution[tier]\<close> and finds
  nothing, so the entity is left out.  On the twenty-one entities of \<open>scores21\<close> the
  result has twenty entries, and the entity \<open>u\<close> of the lowest score has no tier.
\<close>

theorem assign_tiers_drops_21st:
  "assign_tiers scores21 = Inr tiers21
   \<and> map_of scores21 ''u'' = Some 20
   \<and> map_of tiers21 ''u'' = None
   \<and> length tiers21 = 20"
proof -
  have "scores21 \<noteq> []" by (simp add: scores21_def)
  then have "assign_tiers scores21 = Inr (rebalance_only scores21)"
    by (rule assign_tiers_nonempty)
  then have "assign_tiers scores21 = Inr tiers21" by (simp add: rebalance_only_scores21)
  moreover have "map_of scores21 ''u'' = Some 20" by (simp add: scores21_def)
  moreover have "map_of tiers21 ''u'' = None" by (simp add: tiers21_def)
  moreover have "length tiers21 = 20" by (simp add: tiers21_def)
  ultimately show ?thesis by blast
qed

section \<open>Empty inputs and unconfigured positions\<close>

lemma calculate_player_scores_no_rows:
  "rows players_data = [] \<Longrightarrow> calculate_player_scores players_data position = Inr []"
  by (simp add: calculate_player_scores_def)

lemma calculate_player_scores_no_position_rows:
  "filter (\<lambda>r. player_position r = position) (rows players_data) = []
   \<Longrightarrow> calculate_player_scores players_data position = Inr []"
  by (simp add: calculate_player_scores_def Let_def)

lemma calculate_team_scores_empty: "calculate_team_scores [] standings = []"
  by (simp add: calculate_team_scores_def)

text \<open>
  Claim C3 (every core operation returns an empty mapping on an empty group): the two
  scorers do, on an empty table and on a table with no row of the position;
  \<open>assign_tiers\<close> does not: on the empty score map \<open>np.percentile\<close> raises.
\<close>

theorem empty_inputs:
  "calculate_player_scores (players_data\<lparr>rows := []\<rparr>) position = Inr []
   \<and> calculate_player_scores
        (players_data\<lparr>rows := filter (\<lambda>r. player_position r \<noteq> position) rs\<rparr>) position = Inr []
   \<and> calculate_team_scores [] standings = []
   \<and> assign_tiers [] = Inl IndexError"
proof -
  have "filter (\<lambda>r. player_position r = position)
          (filter (\<lambda>r. player_position r \<noteq> position) rs) = []"
    by (induction rs) auto
  then have "calculate_player_scores
        (players_data\<lparr>rows := filter (\<lambda>r. player_position r \<noteq> position) rs\<rparr>) position = Inr []"
    by (simp add: calculate_player_scores_no_position_rows)
  then show ?thesis
    by (simp add: calculate_player_scores_no_rows calculate_team_scores_empty assign_tiers_empty)
qed

lemma unknown_position_raises:
  assumes "map_of position_weights position = None"
    and "filter (\<lambda>r. player_position r = position) (rows players_data) \<noteq> []"
  shows "calculate_player_scores players_data position = Inl KeyError"
proof -
  from assms(2) have "rows players_data \<noteq> []" by auto
  with assms show ?thesis
    by (simp add: calculate_player_scores_def Let_def normalize_position_metrics_def)
qed

text \<open>
  Claim C8 (an unconfigured position falls back to the Forward weights) fails on the
  code.  \<open>calculate_player_scores\<close> takes the fallback with
  \<open>position_weights.get(position, position_weights['Forward'])\<close>, but
  \<open>_normalize_position_metrics\<close> then indexes \<open>position_weights[position]\<close> and raises
  \<open>KeyError\<close>.
\<close>

theorem unconfigured_position_raises:
  "calculate_player_scores winger_frame ''Winger'' = Inl KeyError"
proof -
  have w: "map_of position_weights ''Winger'' = None"
    by (simp add: position_weights_def)
  have r: "filter (\<lambda>r. player_position r = ''Winger'') (rows winger_frame) \<noteq> []"
    by (simp add: winger_frame_def)
  show ?thesis by (rule unknown_position_raises[OF w r])
qed

section \<open>The normalisers against the reference definition\<close>

lemma series_max_Max: "xs \<noteq> [] \<Longrightarrow> series_max xs = Some (Max (set xs))"
proof (cases xs)
  case Nil
  assume "xs \<noteq> []"
  with Nil show ?thesis by simp
next
  case (Cons a list)
  have "series_max (a # list) = Some (fold max list a)" by simp
  also have "fold max list a = Max (set (a # list))" by (rule Max.set_eq_fold[symmetric])
  finally show ?thesis using Cons by simp
qed

lemma series_min_Min: "xs \<noteq> [] \<Longrightarrow> series_min xs = Some (Min (set xs))"
proof (cases xs)
  case Nil
  assume "xs \<noteq> []"
  with Nil show ?thesis by simp
next
  case (Cons a list)
  have "series_min (a # list) = Some (fold min list a)" by simp
  also have "fold min list a = Min (set (a # list))" by (rule Min.set_eq_fold[symmetric])
  finally show ?thesis using Cons by simp
qed

lemma normalize_higher_spec: "normalize_higher col = map (spec_normalize HigherIsBetter col) col"
proof (cases "col = []")
  case True
  then show ?thesis by (simp add: normalize_higher_def)
next
  case False
  then show ?thesis
    by (simp add: normalize_higher_def series_max_Max series_min_Min spec_normalize_def Let_def)
qed

lemma normalize_lower_spec: "normalize_lower col = map (spec_normalize LowerIsBetter col) col"
proof (cases "col = []")
  case True
  then show ?thesis by (simp add: normalize_lower_def)
next
  case False
  then show ?thesis
    by (simp add: normalize_lower_def series_max_Max series_min_Min spec_normalize_def Let_def)
qed

lemma dropna_map_Some: "dropna (map Some xs) = xs"
  by (induction xs) simp_all

lemma normalize_column_spec:
  "normalize_column (map Some col) =
     map (\<lambda>v. Some (if 0 < Max (set col) then spec_normalize HigherIsBetter col v else 50)) col"
proof (cases "col = []")
  case True
  then show ?thesis by (simp add: normalize_column_def)
next
  case False
  then show ?thesis
    by (simp add: normalize_column_def dropna_map_Some series_max_Max series_min_Min
          spec_normalize_def Let_def)
qed

lemma spec_normalize_endpoints:
  assumes "Max (set col) \<noteq> Min (set col)"
  shows "spec_normalize HigherIsBetter col (Max (set col)) = 100"
    and "spec_normalize HigherIsBetter col (Min (set col)) = 0"
    and "spec_normalize LowerIsBetter col (Min (set col)) = 100"
    and "spec_normalize LowerIsBetter col (Max (set col)) = 0"
  using assms by (simp_all add: spec_normalize_def Let_def)

text \<open>
  Claim C5 as stated (both normalisers equal the reference definition on every group)
  fails for \<open>_normalize_position_metrics\<close>, whose test is
  \<open>max_val != min_val and max_val > 0\<close>: on two players with the cells -2 and -1 the
  maximum differs from the minimum but is not positive, and both get 50, where the
  reference definition gives 0 and 100.
\<close>

theorem player_normalizer_guard_counterexample:
  "normalize_position_metrics neg_frame ''Forward'' =
     Inr \<lparr>columns = [''goals'', ''goals_norm''],
          rows = [neg_row1\<lparr>stats := [''goals'' \<mapsto> - 2, ''goals_norm'' \<mapsto> 50]\<rparr>,
                  neg_row2\<lparr>stats := [''goals'' \<mapsto> - 1, ''goals_norm'' \<mapsto> 50]\<rparr>]\<rparr>
   \<and> spec_normalize HigherIsBetter [- 2, - 1] (- 2) = 0
   \<and> spec_normalize HigherIsBetter [- 2, - 1] (- 1) = 100"
  by (simp add: normalize_position_metrics_def position_weights_def forward_weights_def
        neg_frame_def neg_row1_def neg_row2_def add_norm_column_def set_column_def
        norm_label_def normalize_column_def spec_normalize_def)

text \<open>
  Claim C5, amended.  The two normalisers of \<open>calculate_team_scores\<close> equal the
  reference definition, for higher-is-better and for lower-is-better metrics.  The
  normaliser of \<open>_normalize_position_metrics\<close> (higher-is-better only, here on a column
  without missing cells) equals the reference definition when the maximum of the
  group is positive, and gives 50 to every entity otherwise.  Where the maximum differs
  from the minimum, the reference maps the maximum to 100 and the minimum to 0 for
  higher-is-better, and the minimum to 100 and the maximum to 0 for lower-is-better.
\<close>

theorem normalizers_refine_spec:
  "normalize_higher col = map (spec_normalize HigherIsBetter col) col
   \<and> normalize_lower col = map (spec_normalize LowerIsBetter col) col
   \<and> normalize_column (map Some col) =
       map (\<lambda>v. Some (if 0 < Max (set col) then spec_normalize HigherIsBetter col v else 50)) col
   \<and> (Max (set col) \<noteq> Min (set col) \<longrightarrow>
        spec_normalize HigherIsBetter col (Max (set col)) = 100
        \<and> spec_normalize HigherIsBetter col (Min (set col)) = 0
        \<and> spec_normalize LowerIsBetter col (Min (set col)) = 100
        \<and> spec_normalize LowerIsBetter col (Max (set col)) = 0)"
  using normalize_higher_spec[of col] normalize_lower_spec[of col] normalize_column_spec[of col]
    spec_normalize_endpoints[of col]
  by blast

theorem normalizers_refine_spec_witness:
  "Max (set [1, 3, 2 :: real]) \<noteq> Min (set [1, 3, 2 :: real])
   \<and> normalize_higher [1, 3, 2] = [0, 100, 50]
   \<and> normalize_lower [1, 3, 2] = [100, 0, 50]
   \<and> normalize_column [Some 1, Some 3, Some 2] = [Some 0, Some 100, Some 50]
   \<and> spec_normalize HigherIsBetter [1, 3, 2] 3 = 100
   \<and> spec_normalize LowerIsBetter [1, 3, 2] 1 = 100"
proof -
  have ne: "Max (set [1, 3, 2 :: real]) \<noteq> Min (set [1, 3, 2 :: real])" by simp
  have mx: "Max (set [1, 3, 2 :: real]) = 3" and mn: "Min (set [1, 3, 2 :: real]) = 1"
    by simp_all
  have sp: "map (spec_normalize HigherIsBetter [1, 3, 2]) [1, 3, 2] = [0, 100, 50]"
    "map (spec_normalize LowerIsBetter [1, 3, 2]) [1, 3, 2] = [100, 0, 50]"
    by (simp_all add: spec_normalize_def)
  from normalizers_refine_spec[of "[1, 3, 2]"] ne sp mx mn
  show ?thesis by (simp add: spec_normalize_def)
qed

section \<open>Scores: the weighted scorer and the range of scores\<close>

lemma score_loop_sums:
  "foldl (\<lambda>(score, total_weight) (metric, weight).
            if norm_label metric \<in> set labels \<and> player (norm_label metric) \<noteq> None
            then (score + the (player (norm_label metric)) * weight, total_weight + weight)
            else (score, total_weight))
     (s0, w0) weights
   = (s0 + sum_list (map (\<lambda>e. snd e * the (player (norm_label (fst e))))
              (present_metrics weights labels player)),
      w0 + sum_list (map snd (present_metrics weights labels player)))"
proof (induction weights arbitrary: s0 w0)
  case Nil
  show ?case by (simp add: present_metrics_def)
next
  case (Cons e weights)
  obtain metric weight where e: "e = (metric, weight)" by (cases e)
  show ?case
  proof (cases "player (norm_label metric)")
    case None
    then have "present_metrics (e # weights) labels player
               = present_metrics weights labels player"
      by (simp add: present_metrics_def e)
    with None Cons.IH[of s0 w0] show ?thesis by (simp add: e)
  next
    case (Some y)
    show ?thesis
    proof (cases "norm_label metric \<in> set labels")
      case True
      with Some have "present_metrics (e # weights) labels player
                 = e # present_metrics weights labels player"
        by (simp add: present_metrics_def e)
      with True Some Cons.IH[of "s0 + y * weight" "w0 + weight"]
      show ?thesis by (simp add: e algebra_simps)
    next
      case False
      then have "present_metrics (e # weights) labels player
                 = present_metrics weights labels player"
        by (simp add: present_metrics_def e)
      with False Cons.IH[of s0 w0] show ?thesis by (simp add: e)
    qed
  qed
qed

lemma player_score_sums:
  "player_score weights labels player =
     (let used = present_metrics weights labels player;
          score = sum_list (map (\<lambda>e. snd e * the (player (norm_label (fst e)))) used);
          total_weight = sum_list (map snd used)
      in if total_weight > 0 then score / total_weight * 100 else score)"
  by (simp only: player_score_def score_loop_sums) (simp add: Let_def)

lemma zero_weight_sum:
  assumes "\<forall>e \<in> set used. 0 \<le> snd e" and "sum_list (map snd used) = (0::real)"
  shows "sum_list (map (\<lambda>e. snd e * f e) used) = (0::real)"
proof -
  have "\<And>x. x \<in> set (map snd used) \<Longrightarrow> 0 \<le> x" using assms(1) by auto
  then have "sum_list (map snd used) = 0 \<longleftrightarrow> (\<forall>x \<in> set (map snd used). x = 0)"
    by (rule sum_list_nonneg_eq_0_iff)
  with assms(2) have "\<forall>x \<in> set (map snd used). x = 0" by blast
  then have "map (\<lambda>e. snd e * f e) used = map (\<lambda>_. 0) used" by simp
  then have "sum_list (map (\<lambda>e. snd e * f e) used) = sum_list (map (\<lambda>_. 0::real) used)"
    by (rule arg_cong)
  also have "\<dots> = 0" by simp
  finally show ?thesis .
qed

lemma player_score_spec:
  assumes "\<forall>e \<in> set weights. 0 \<le> snd e"
  shows "player_score weights labels player = spec_weighted_score weights labels player"
proof -
  let ?used = "present_metrics weights labels player"
  have nn: "\<forall>e \<in> set ?used. 0 \<le> snd e" using assms by (simp add: present_metrics_def)
  then have "\<And>x. x \<in> set (map snd ?used) \<Longrightarrow> 0 \<le> x" by auto
  then have ge: "0 \<le> sum_list (map snd ?used)" by (rule sum_list_nonneg)
  show ?thesis
  proof (cases "sum_list (map snd ?used) = 0")
    case True
    with zero_weight_sum[OF nn True] show ?thesis
      by (simp add: player_score_sums spec_weighted_score_def Let_def)
  next
    case False
    with ge have "0 < sum_list (map snd ?used)" by simp
    then show ?thesis by (simp add: player_score_sums spec_weighted_score_def Let_def)
  qed
qed

lemma present_metrics_missing:
  assumes "norm_label m \<notin> set labels \<or> player (norm_label m) = None"
  shows "present_metrics (ws1 @ (m, w) # ws2) labels player
         = present_metrics (ws1 @ ws2) labels player"
  using assms by (auto simp: present_metrics_def)

lemma player_score_missing:
  assumes "norm_label m \<notin> set labels \<or> player (norm_label m) = None"
  shows "player_score (ws1 @ (m, w) # ws2) labels player
         = player_score (ws1 @ ws2) labels player"
  using present_metrics_missing[where m = m and player = player and labels = labels,
      OF assms, of ws1 w ws2]
  by (simp only: player_score_sums)


lemma dict_set_mem:
  "(k, v) \<in> set (dict_set k' v' d) \<Longrightarrow> (k, v) = (k', v') \<or> (k, v) \<in> set d"
  by (induction d) (auto split: if_splits)

lemma foldl_dict_set_mem:
  "(k, v) \<in> set (foldl (\<lambda>d x. dict_set (f x) (g x) d) d0 xs)
   \<Longrightarrow> (k, v) \<in> set d0 \<or> (\<exists>x \<in> set xs. k = f x \<and> v = g x)"
proof (induction xs arbitrary: d0)
  case Nil
  then show ?case by simp
next
  case (Cons x xs)
  from Cons.prems have "(k, v) \<in> set (foldl (\<lambda>d x. dict_set (f x) (g x) d) (dict_set (f x) (g x) d0) xs)"
    by simp
  from Cons.IH[OF this] show ?case
  proof
    assume "(k, v) \<in> set (dict_set (f x) (g x) d0)"
    from dict_set_mem[OF this] show ?thesis by auto
  next
    assume "\<exists>x \<in> set xs. k = f x \<and> v = g x"
    then show ?thesis by auto
  qed
qed

lemma foldl_dict_set_distinct:
  "distinct (map f xs) \<Longrightarrow> set (map f xs) \<inter> fst ` set d0 = {}
   \<Longrightarrow> foldl (\<lambda>d x. dict_set (f x) (g x) d) d0 xs = d0 @ map (\<lambda>x. (f x, g x)) xs"
proof (induction xs arbitrary: d0)
  case Nil
  then show ?case by simp
next
  case (Cons x xs)
  from Cons.prems(2) have fresh: "f x \<notin> fst ` set d0" by auto
  have step: "dict_set (f x) (g x) d0 = d0 @ [(f x, g x)]"
    by (rule dict_set_fresh[OF fresh])
  have d: "distinct (map f xs)" using Cons.prems(1) by simp
  have "set (map f xs) \<inter> fst ` set (d0 @ [(f x, g x)]) = {}"
    using Cons.prems by auto
  from Cons.IH[OF d this] show ?case by (simp add: step)
qed

lemma length_normalize_column: "length (normalize_column col) = length col"
  by (simp add: normalize_column_def split: option.splits)

lemma dropna_mem: "x \<in> set (dropna col) \<longleftrightarrow> Some x \<in> set col"
  by (induction col rule: dropna.induct) auto

lemma rescale_range:
  fixes v mn mx :: real
  assumes "mn \<le> v" "v \<le> mx" "mx \<noteq> mn"
  shows "0 \<le> (v - mn) / (mx - mn) * 100" and "(v - mn) / (mx - mn) * 100 \<le> 100"
    and "0 \<le> (mx - v) / (mx - mn) * 100" and "(mx - v) / (mx - mn) * 100 \<le> 100"
proof -
  from assms have pos: "0 < mx - mn" by simp
  have a: "0 \<le> (v - mn) / (mx - mn)" using assms pos by simp
  have b: "(v - mn) / (mx - mn) \<le> 1" using assms pos by (simp add: divide_le_eq)
  have c: "0 \<le> (mx - v) / (mx - mn)" using assms pos by simp
  have d: "(mx - v) / (mx - mn) \<le> 1" using assms pos by (simp add: divide_le_eq)
  show "0 \<le> (v - mn) / (mx - mn) * 100"
    by (rule mult_nonneg_nonneg[OF a]) simp
  have "(v - mn) / (mx - mn) * 100 \<le> 1 * 100"
    by (rule mult_right_mono[OF b]) simp
  then show "(v - mn) / (mx - mn) * 100 \<le> 100" by (simp only: mult_1)
  show "0 \<le> (mx - v) / (mx - mn) * 100"
    by (rule mult_nonneg_nonneg[OF c]) simp
  have "(mx - v) / (mx - mn) * 100 \<le> 1 * 100"
    by (rule mult_right_mono[OF d]) simp
  then show "(mx - v) / (mx - mn) * 100 \<le> 100" by (simp only: mult_1)
qed

lemma spec_normalize_range:
  assumes "v \<in> set col"
  shows "0 \<le> spec_normalize pol col v \<and> spec_normalize pol col v \<le> 100"
proof -
  have lo: "Min (set col) \<le> v" and hi: "v \<le> Max (set col)" using assms by simp_all
  show ?thesis
  proof (cases "Max (set col) = Min (set col)")
    case True
    then show ?thesis by (simp add: spec_normalize_def)
  next
    case False
    from rescale_range[OF lo hi False] show ?thesis
      using False by (cases pol) (simp_all add: spec_normalize_def Let_def)
  qed
qed

lemma normalize_higher_nth:
  assumes "i < length col"
  shows "0 \<le> normalize_higher col ! i \<and> normalize_higher col ! i \<le> 100"
proof -
  have "normalize_higher col ! i = spec_normalize HigherIsBetter col (col ! i)"
    using assms by (simp add: normalize_higher_spec)
  moreover have "col ! i \<in> set col" using assms by simp
  ultimately show ?thesis using spec_normalize_range by simp
qed

lemma normalize_lower_nth:
  assumes "i < length col"
  shows "0 \<le> normalize_lower col ! i \<and> normalize_lower col ! i \<le> 100"
proof -
  have "normalize_lower col ! i = spec_normalize LowerIsBetter col (col ! i)"
    using assms by (simp add: normalize_lower_spec)
  moreover have "col ! i \<in> set col" using assms by simp
  ultimately show ?thesis using spec_normalize_range by simp
qed

lemma weighted_team_sum_range:
  fixes a b c d e f g :: real
  assumes "0 \<le> a \<and> a \<le> 100" "0 \<le> b \<and> b \<le> 100" "0 \<le> c \<and> c \<le> 100"
    "0 \<le> d \<and> d \<le> 100" "0 \<le> e \<and> e \<le> 100" "0 \<le> f \<and> f \<le> 100" "0 \<le> g \<and> g \<le> 100"
  shows "0 \<le> a * (35 / 100) + b * (15 / 100) + c * (15 / 100) + d * (10 / 100)
              + e * (10 / 100) + f * (8 / 100) + g * (7 / 100)"
    and "a * (35 / 100) + b * (15 / 100) + c * (15 / 100) + d * (10 / 100)
              + e * (10 / 100) + f * (8 / 100) + g * (7 / 100) \<le> 100"
  using assms by simp_all

lemma team_scores_range:
  assumes "(n, s) \<in> set (calculate_team_scores teams_data standings)"
  shows "0 \<le> s \<and> s \<le> 100"
proof -
  let ?score = "\<lambda>i. normalize_lower (map league_position teams_data) ! i * (35 / 100) +
                     normalize_higher (map goals_for teams_data) ! i * (15 / 100) +
                     normalize_lower (map goals_against teams_data) ! i * (15 / 100) +
                     normalize_higher (map possession_avg teams_data) ! i * (10 / 100) +
                     normalize_higher (map pass_accuracy teams_data) ! i * (10 / 100) +
                     normalize_higher (map shots_per_game teams_data) ! i * (8 / 100) +
                     normalize_higher (map clean_sheets teams_data) ! i * (7 / 100)"
  have "calculate_team_scores teams_data standings
        = foldl (\<lambda>d i. dict_set (team (teams_data ! i)) (?score i) d) [] [0..<length teams_data]"
    by (simp add: calculate_team_scores_def Let_def)
  with assms foldl_dict_set_mem[of n s "\<lambda>i. team (teams_data ! i)" ?score "[]" "[0..<length teams_data]"]
  obtain i where i: "i < length teams_data" and s: "s = ?score i" by auto
  show ?thesis unfolding s
    using weighted_team_sum_range[OF
        normalize_lower_nth[of i "map league_position teams_data"]
        normalize_higher_nth[of i "map goals_for teams_data"]
        normalize_lower_nth[of i "map goals_against teams_data"]
        normalize_higher_nth[of i "map possession_avg teams_data"]
        normalize_higher_nth[of i "map pass_accuracy teams_data"]
        normalize_higher_nth[of i "map shots_per_game teams_data"]
        normalize_higher_nth[of i "map clean_sheets teams_data"]] i
    by simp
qed


lemma normalize_column_range:
  assumes "Some v \<in> set (normalize_column col)"
  shows "0 \<le> v \<and> v \<le> 100"
proof (cases "dropna col = []")
  case True
  with assms show ?thesis by (auto simp: normalize_column_def)
next
  case False
  let ?mx = "Max (set (dropna col))" and ?mn = "Min (set (dropna col))"
  show ?thesis
  proof (cases "?mx \<noteq> ?mn \<and> 0 < ?mx")
    case True
    define f where "f = (\<lambda>v. (v - ?mn) / (?mx - ?mn) * 100)"
    from True False have eq: "normalize_column col = map (map_option f) col"
      unfolding f_def by (simp add: normalize_column_def series_max_Max series_min_Min)
    from assms have "Some v \<in> map_option f ` set col" unfolding eq by simp
    then obtain c where c: "c \<in> set col" and cv: "Some v = map_option f c"
      by (rule imageE)
    from cv obtain x where cx: "c = Some x" and "v = f x"
      by (cases c) auto
    then have v: "v = (x - ?mn) / (?mx - ?mn) * 100" by (simp add: f_def)
    from c cx have x: "Some x \<in> set col" by simp
    from x have mem: "x \<in> set (dropna col)" by (simp add: dropna_mem)
    then have "?mn \<le> x" "x \<le> ?mx" by simp_all
    from rescale_range(1,2)[OF this] True show ?thesis unfolding v by blast
  next
    case F2: False
    with False assms have "v = 50"
      by (auto simp: normalize_column_def series_max_Max series_min_Min split: if_splits)
    then show ?thesis by simp
  qed
qed


lemma set_column_names:
  assumes "length cells = length (rows df)"
  shows "map name (rows (set_column label cells df)) = map name (rows df)"
proof -
  have "map name (rows (set_column label cells df))
        = map (\<lambda>p. name (fst p)) (zip (rows df) cells)"
    by (simp add: set_column_def case_prod_unfold comp_def)
  also have "\<dots> = map name (map fst (zip (rows df) cells))" by (simp add: comp_def)
  also have "map fst (zip (rows df) cells) = rows df"
    using assms by (simp add: map_fst_zip)
  finally show ?thesis .
qed

lemma add_norm_column_names:
  "map name (rows (add_norm_column metric df)) = map name (rows df)"
  unfolding add_norm_column_def
  by (rule set_column_names) (simp add: length_normalize_column)

lemma add_norm_column_columns:
  "set (columns (add_norm_column metric df)) = insert (norm_label metric) (set (columns df))"
  by (auto simp: add_norm_column_def set_column_def)

lemma add_norm_column_range:
  assumes "norm_cells_in_range cols0 df"
  shows "norm_cells_in_range cols0 (add_norm_column metric df)"
  unfolding norm_cells_in_range_def
proof (intro ballI impI allI)
  fix r' l v
  let ?ncol = "normalize_column (map (\<lambda>r. stats r metric) (rows df))"
  assume r': "r' \<in> set (rows (add_norm_column metric df))"
    and l: "l \<in> set (columns (add_norm_column metric df))"
    and new: "l \<notin> set cols0" and cell: "stats r' l = Some v"
  from r' obtain r c where z: "(r, c) \<in> set (zip (rows df) ?ncol)"
    and r'_eq: "r' = r\<lparr>stats := (stats r)(norm_label metric := c)\<rparr>"
    by (auto simp: add_norm_column_def set_column_def)
  from z have r: "r \<in> set (rows df)" and c: "c \<in> set ?ncol"
    by (auto dest: set_zip_leftD set_zip_rightD)
  show "0 \<le> v \<and> v \<le> 100"
  proof (cases "l = norm_label metric")
    case True
    with cell r'_eq have "c = Some v" by simp
    with c show ?thesis using normalize_column_range by blast
  next
    case False
    with cell r'_eq have old: "stats r l = Some v" by simp
    from l False have "l \<in> set (columns df)" by (simp add: add_norm_column_columns)
    with assms r new old show ?thesis unfolding norm_cells_in_range_def by blast
  qed
qed

lemma foldl_normalize_inv:
  assumes "norm_cells_in_range cols0 df"
  shows "norm_cells_in_range cols0
           (foldl (\<lambda>nd metric. if metric \<in> set (columns nd)
                                then add_norm_column metric nd else nd) df ms)
       \<and> map name (rows (foldl (\<lambda>nd metric. if metric \<in> set (columns nd)
                                then add_norm_column metric nd else nd) df ms))
         = map name (rows df)"
  using assms
proof (induction ms arbitrary: df)
  case Nil
  then show ?case by simp
next
  case (Cons m ms)
  show ?case
  proof (cases "m \<in> set (columns df)")
    case True
    have "norm_cells_in_range cols0 (add_norm_column m df)"
      by (rule add_norm_column_range[OF Cons.prems])
    from Cons.IH[OF this] True show ?thesis by (simp add: add_norm_column_names)
  next
    case False
    from Cons.IH[OF Cons.prems] False show ?thesis by simp
  qed
qed

lemma normalize_position_metrics_props:
  assumes "normalize_position_metrics position_players position = Inr nd"
  shows "map name (rows nd) = map name (rows position_players)"
    and "norm_cells_in_range (columns position_players) nd"
proof -
  from assms obtain w where w: "map_of position_weights position = Some w"
    and nd: "nd = foldl (\<lambda>nd metric. if metric \<in> set (columns nd)
                                     then add_norm_column metric nd else nd)
                    position_players (map fst w)"
    by (auto simp: normalize_position_metrics_def split: option.splits)
  have init: "norm_cells_in_range (columns position_players) position_players"
    by (simp add: norm_cells_in_range_def)
  from foldl_normalize_inv[OF init, of "map fst w"]
  show "map name (rows nd) = map name (rows position_players)"
    and "norm_cells_in_range (columns position_players) nd"
    unfolding nd by simp_all
qed

lemma position_weights_positive:
  assumes "map_of position_weights position = Some w"
  shows "\<forall>e \<in> set w. 0 < snd e"
  using assms
  by (auto simp: position_weights_def forward_weights_def split: if_splits)

lemma spec_weighted_score_nonneg:
  assumes "\<forall>e \<in> set weights. 0 \<le> snd e"
    and "\<forall>e \<in> set weights. norm_label (fst e) \<in> set labels \<longrightarrow>
           (\<forall>v. player (norm_label (fst e)) = Some v \<longrightarrow> 0 \<le> v)"
  shows "0 \<le> spec_weighted_score weights labels player"
proof -
  let ?used = "present_metrics weights labels player"
  let ?S = "sum_list (map (\<lambda>e. snd e * the (player (norm_label (fst e)))) ?used)"
  let ?W = "sum_list (map snd ?used)"
  have bnd: "0 \<le> snd e * the (player (norm_label (fst e)))" if "e \<in> set ?used" for e
  proof -
    from that have e: "e \<in> set weights" and l: "norm_label (fst e) \<in> set labels"
      and "player (norm_label (fst e)) \<noteq> None"
      by (auto simp: present_metrics_def)
    then obtain v where v: "player (norm_label (fst e)) = Some v" by auto
    with assms(2) e l have "0 \<le> v" by blast
    moreover from assms(1) e have "0 \<le> snd e" by blast
    ultimately show ?thesis using v by simp
  qed
  have S0: "0 \<le> ?S" by (rule sum_list_nonneg) (use bnd in auto)
  have "\<And>x. x \<in> set (map snd ?used) \<Longrightarrow> 0 \<le> x"
    using assms(1) by (auto simp: present_metrics_def)
  then have W0: "0 \<le> ?W" by (rule sum_list_nonneg)
  have q: "0 \<le> ?S / ?W" using S0 W0 by simp
  have "0 \<le> ?S / ?W * 100" by (rule mult_nonneg_nonneg[OF q]) simp
  then show ?thesis by (simp add: spec_weighted_score_def Let_def)
qed

lemma calculate_player_scores_Inr:
  assumes "calculate_player_scores players_data position = Inr scores" and "scores \<noteq> []"
  shows "\<exists>w nd. map_of position_weights position = Some w
           \<and> normalize_position_metrics (position_rows players_data position) position = Inr nd
           \<and> scores = foldl (\<lambda>d r. dict_set (name r)
                                    (player_score w (columns nd) (stats r)) d)
                         [] (rows nd)"
proof (cases "map_of position_weights position")
  case None
  with assms show ?thesis
    by (auto simp: calculate_player_scores_def Let_def normalize_position_metrics_def
          split: if_splits)
next
  case (Some w)
  then obtain nd where nd:
    "normalize_position_metrics (position_rows players_data position) position = Inr nd"
    by (simp add: normalize_position_metrics_def)
  with assms Some show ?thesis
    by (auto simp: calculate_player_scores_def Let_def position_rows_def split: if_splits)
qed

lemma player_scores_nonneg:
  assumes "calculate_player_scores players_data position = Inr scores"
    and "(n, s) \<in> set scores"
    and "\<forall>m \<in> set (weighted_metrics position). norm_label m \<notin> set (columns players_data)"
  shows "0 \<le> s"
proof -
  from assms(2) have "scores \<noteq> []" by auto
  from calculate_player_scores_Inr[OF assms(1) this] obtain w nd
    where w: "map_of position_weights position = Some w"
      and nd: "normalize_position_metrics (position_rows players_data position) position = Inr nd"
      and sc: "scores = foldl (\<lambda>d r. dict_set (name r)
                                    (player_score w (columns nd) (stats r)) d)
                         [] (rows nd)"
    by blast
  from assms(2) foldl_dict_set_mem[of n s name
      "\<lambda>r. player_score w (columns nd) (stats r)" "[]" "rows nd"]
  obtain r where r: "r \<in> set (rows nd)"
    and s: "s = player_score w (columns nd) (stats r)"
    unfolding sc by auto
  have nn: "\<forall>e \<in> set w. 0 \<le> snd e"
    using position_weights_positive[OF w] by (auto intro: less_imp_le)
  have inv: "norm_cells_in_range (columns players_data) nd"
    using normalize_position_metrics_props(2)[OF nd] by (simp add: position_rows_def)
  have wm: "weighted_metrics position = map fst w" using w by (simp add: weighted_metrics_def)
  have cells: "\<forall>e \<in> set w. norm_label (fst e) \<in> set (columns nd) \<longrightarrow>
           (\<forall>v. stats r (norm_label (fst e)) = Some v \<longrightarrow> 0 \<le> v)"
  proof (intro ballI impI allI)
    fix e v
    assume e: "e \<in> set w" and l: "norm_label (fst e) \<in> set (columns nd)"
      and v: "stats r (norm_label (fst e)) = Some v"
    from e have "fst e \<in> set (weighted_metrics position)" by (simp add: wm)
    with assms(3) have "norm_label (fst e) \<notin> set (columns players_data)" by blast
    with inv r l v show "0 \<le> v" unfolding norm_cells_in_range_def by blast
  qed
  from spec_weighted_score_nonneg[OF nn cells]
  show ?thesis unfolding s player_score_spec[OF nn] .
qed

text \<open>
  Claim C2 as stated (every score lies in \<open>[0, 100]\<close>) fails for
  \<open>calculate_player_scores\<close>: the weighted mean of the normalised values is multiplied
  by 100.  A single Forward gets 50 on every metric and the score 5000.
\<close>

theorem player_score_exceeds_100:
  "calculate_player_scores solo_frame ''Forward'' = Inr [(''Solo'', 5000)]
   \<and> \<not> (5000 :: real) \<le> 100"
  by (simp add: calculate_player_scores_def solo_frame_def normalize_position_metrics_def
        position_weights_def forward_weights_def add_norm_column_def set_column_def
        norm_label_def normalize_column_def player_score_def)

text \<open>
  Claim C2, amended: every score returned by \<open>calculate_team_scores\<close> lies in
  \<open>[0, 100]\<close>; every score returned by \<open>calculate_player_scores\<close>, on a table that
  does not itself come with a column \<open><metric>_norm\<close> of a weighted metric, is at
  least 0.  (It has no upper bound of 100.)
\<close>

theorem scores_range:
  "((n, s) \<in> set (calculate_team_scores teams_data standings) \<longrightarrow> 0 \<le> s \<and> s \<le> 100)
   \<and> (calculate_player_scores players_data position = Inr scores \<and> (n', s') \<in> set scores
        \<and> (\<forall>m \<in> set (weighted_metrics position). norm_label m \<notin> set (columns players_data))
        \<longrightarrow> 0 \<le> s')"
  using team_scores_range[of n s teams_data standings]
    player_scores_nonneg[of players_data position scores n' s']
  by blast

theorem scores_range_witness:
  "(''X'', 87) \<in> set (calculate_team_scores teams2 ()) \<and> (0::real) \<le> 87 \<and> (87::real) \<le> 100
   \<and> calculate_player_scores frame4 ''Forward''
       = Inr [(''A'', 10000), (''B'', 5000), (''C'', 0), (''D'', 0)]
   \<and> (''B'', 5000) \<in> set [(''A'', 10000), (''B'', 5000), (''C'', 0), (''D'', 0 :: real)]
   \<and> list_all (\<lambda>m. norm_label m \<notin> set (columns frame4)) (weighted_metrics ''Forward'')
   \<and> (0::real) \<le> 5000"
proof -
  have t: "(''X'', 87) \<in> set (calculate_team_scores teams2 ())"
    by (simp add: calculate_team_scores_def teams2_def normalize_higher_def normalize_lower_def)
  have p: "calculate_player_scores frame4 ''Forward''
             = Inr [(''A'', 10000), (''B'', 5000), (''C'', 0), (''D'', 0)]"
    by (simp add: calculate_player_scores_def frame4_def row_a_def row_b_def row_c_def
          row_d_def normalize_position_metrics_def position_weights_def forward_weights_def
          add_norm_column_def set_column_def norm_label_def normalize_column_def
          player_score_def)
  have m: "(''B'', 5000) \<in> set [(''A'', 10000), (''B'', 5000), (''C'', 0), (''D'', 0 :: real)]"
    by simp
  have raw: "\<forall>m \<in> set (weighted_metrics ''Forward''). norm_label m \<notin> set (columns frame4)"
    by (simp add: weighted_metrics_def position_weights_def forward_weights_def
          norm_label_def frame4_def)
  from scores_range[of "''X''" 87 teams2 "()" frame4 "''Forward''"
      "[(''A'', 10000), (''B'', 5000), (''C'', 0), (''D'', 0)]" "''B''" 5000] t p m raw
  show ?thesis by (simp add: list_all_iff)
qed

lemma calculate_player_scores_batch:
  assumes "map_of position_weights position = Some pw"
    and "rows (position_rows players_data position) \<noteq> []"
    and "distinct (map name (rows (position_rows players_data position)))"
  shows "\<exists>nd. normalize_position_metrics (position_rows players_data position) position = Inr nd
           \<and> calculate_player_scores players_data position
               = Inr (map (\<lambda>r. (name r, spec_weighted_score pw (columns nd) (stats r)))
                        (rows nd))"
proof -
  from assms(1) obtain nd where nd:
    "normalize_position_metrics (position_rows players_data position) position = Inr nd"
    by (simp add: normalize_position_metrics_def)
  have nn: "\<forall>e \<in> set pw. 0 \<le> snd e"
    using position_weights_positive[OF assms(1)] by (auto intro: less_imp_le)
  from assms(2) have ne: "rows players_data \<noteq> []" by (auto simp: position_rows_def)
  have d: "distinct (map name (rows nd))"
    using assms(3) by (simp only: normalize_position_metrics_props(1)[OF nd])
  have "calculate_player_scores players_data position
        = Inr (foldl (\<lambda>d r. dict_set (name r) (player_score pw (columns nd) (stats r)) d)
                 [] (rows nd))"
    using assms(1,2) ne nd
    by (simp add: calculate_player_scores_def Let_def position_rows_def)
  also have "foldl (\<lambda>d r. dict_set (name r) (player_score pw (columns nd) (stats r)) d)
                 [] (rows nd)
             = map (\<lambda>r. (name r, player_score pw (columns nd) (stats r))) (rows nd)"
    using foldl_dict_set_distinct[OF d, of "[]"] by simp
  finally show ?thesis using nd by (simp add: player_score_spec[OF nn])
qed

text \<open>
  Claim C6: for a WeightMap of non-negative weights the score of an entity is the
  specification's WeightedScorer: the sum of weight times normalised value over the
  metrics present for the entity, divided by the sum of their weights, times 100, and
  0 if that sum of weights is 0.  A metric that is absent or undefined for the entity
  is skipped, so the score does not depend on its weight; an entity without any
  present metric scores 0; and in a batch of distinctly named players of a configured
  position every player gets the score of its own normalised values.
\<close>

theorem weighted_scorer:
  assumes "\<forall>e \<in> set weights. 0 \<le> snd e"
  shows "player_score weights labels player = spec_weighted_score weights labels player
     \<and> (norm_label m \<notin> set labels \<or> player (norm_label m) = None \<longrightarrow>
          player_score (ws1 @ (m, w) # ws2) labels player
          = player_score (ws1 @ (m, w') # ws2) labels player)
     \<and> (present_metrics weights labels player = [] \<longrightarrow>
          player_score weights labels player = 0)
     \<and> (map_of position_weights position = Some pw
          \<and> rows (position_rows players_data position) \<noteq> []
          \<and> distinct (map name (rows (position_rows players_data position))) \<longrightarrow>
          (\<exists>nd. normalize_position_metrics (position_rows players_data position) position = Inr nd
             \<and> calculate_player_scores players_data position
                 = Inr (map (\<lambda>r. (name r, spec_weighted_score pw (columns nd) (stats r)))
                          (rows nd))))"
proof -
  have a: "player_score weights labels player = spec_weighted_score weights labels player"
    by (rule player_score_spec[OF assms])
  have b: "player_score (ws1 @ (m, w) # ws2) labels player
          = player_score (ws1 @ (m, w') # ws2) labels player"
    if "norm_label m \<notin> set labels \<or> player (norm_label m) = None"
    using player_score_missing[where m = m and player = player and labels = labels,
        OF that, of ws1 w ws2]
      player_score_missing[where m = m and player = player and labels = labels,
        OF that, of ws1 w' ws2]
    by simp
  have c: "player_score weights labels player = 0"
    if "present_metrics weights labels player = []"
    using that by (simp add: player_score_sums)
  show ?thesis using a b c calculate_player_scores_batch[of position pw players_data]
    by blast
qed

theorem weighted_scorer_witness:
  "list_all (\<lambda>e. 0 \<le> snd e) forward_weights
   \<and> norm_label ''assists'' \<notin> set [''goals'', ''goals_norm'']
   \<and> present_metrics forward_weights [''goals''] Map.empty = []
   \<and> map_of position_weights ''Forward'' = Some forward_weights
   \<and> rows (position_rows frame4 ''Forward'') \<noteq> []
   \<and> distinct (map name (rows (position_rows frame4 ''Forward'')))
   \<and> player_score forward_weights [''goals''] Map.empty = 0
   \<and> player_score ([(''goals'', 2 / 5)] @ (''assists'', 1 / 4) # [])
        [''goals'', ''goals_norm''] [''goals'' \<mapsto> 5, ''goals_norm'' \<mapsto> 50]
       = player_score ([(''goals'', 2 / 5)] @ (''assists'', 3 / 4) # [])
        [''goals'', ''goals_norm''] [''goals'' \<mapsto> 5, ''goals_norm'' \<mapsto> 50]
   \<and> (\<exists>nd. normalize_position_metrics (position_rows frame4 ''Forward'') ''Forward'' = Inr nd
          \<and> calculate_player_scores frame4 ''Forward''
              = Inr (map (\<lambda>r. (name r, spec_weighted_score forward_weights (columns nd) (stats r)))
                       (rows nd)))
   \<and> player_score forward_weights [''goals_norm'', ''assists_norm'']
        [''goals_norm'' \<mapsto> 100, ''assists_norm'' \<mapsto> 20]
       = 6923 + 1 / 13"
proof -
  have h1: "\<forall>e \<in> set forward_weights. 0 \<le> snd e" by (simp add: forward_weights_def)
  have h2: "norm_label ''assists'' \<notin> set [''goals'', ''goals_norm'']"
    by (simp add: norm_label_def)
  have h3: "present_metrics forward_weights [''goals''] Map.empty = []"
    by (simp add: present_metrics_def forward_weights_def)
  have h4: "map_of position_weights ''Forward'' = Some forward_weights"
    by (simp add: position_weights_def)
  have h5: "rows (position_rows frame4 ''Forward'') \<noteq> []"
    by (simp add: position_rows_def frame4_def row_a_def)
  have h6: "distinct (map name (rows (position_rows frame4 ''Forward'')))"
    by (simp add: position_rows_def frame4_def row_a_def row_b_def row_c_def row_d_def)
  have v: "spec_weighted_score forward_weights [''goals_norm'', ''assists_norm'']
             [''goals_norm'' \<mapsto> 100, ''assists_norm'' \<mapsto> 20] = 6923 + 1 / 13"
    by (simp add: spec_weighted_score_def present_metrics_def forward_weights_def
          norm_label_def)
  from weighted_scorer[OF h1, of "[''goals'']" Map.empty "''assists''" "[(''goals'', 2 / 5)]"
      "1 / 4" "[]" "3 / 4" "''Forward''" forward_weights frame4]
    h3 h4 h5 h6
  have i1: "player_score forward_weights [''goals''] Map.empty = 0"
    and i3: "\<exists>nd. normalize_position_metrics (position_rows frame4 ''Forward'') ''Forward'' = Inr nd
          \<and> calculate_player_scores frame4 ''Forward''
              = Inr (map (\<lambda>r. (name r, spec_weighted_score forward_weights (columns nd) (stats r)))
                       (rows nd))"
    by blast+
  from weighted_scorer[OF h1, of "[''goals'', ''goals_norm'']"
      "[''goals'' \<mapsto> 5, ''goals_norm'' \<mapsto> 50]" "''assists''" "[(''goals'', 2 / 5)]"
      "1 / 4" "[]" "3 / 4"] h2
  have i2: "player_score ([(''goals'', 2 / 5)] @ (''assists'', 1 / 4) # [])
        [''goals'', ''goals_norm''] [''goals'' \<mapsto> 5, ''goals_norm'' \<mapsto> 50]
       = player_score ([(''goals'', 2 / 5)] @ (''assists'', 3 / 4) # [])
        [''goals'', ''goals_norm''] [''goals'' \<mapsto> 5, ''goals_norm'' \<mapsto> 50]"
    by blast
  from weighted_scorer[OF h1, of "[''goals_norm'', ''assists_norm'']"
      "[''goals_norm'' \<mapsto> 100, ''assists_norm'' \<mapsto> 20]"] v
  have i4: "player_score forward_weights [''goals_norm'', ''assists_norm'']
        [''goals_norm'' \<mapsto> 100, ''assists_norm'' \<mapsto> 20] = 6923 + 1 / 13"
    by simp
  from h1 h2 h3 h4 h5 h6 i1 i2 i3 i4 show ?thesis by (simp add: list_all_iff)
qed

section \<open>Head-to-head comparison of two players\<close>

lemma normalize_column_pair:
  "normalize_column [a, b] =
     [Some (fst (head_to_head (who_is_ahead a b))), Some (snd (head_to_head (who_is_ahead a b)))]"
proof (cases a)
  case None
  then show ?thesis by (cases b) (simp_all add: normalize_column_def who_is_ahead_def)
next
  case (Some x)
  note a = this
  show ?thesis
  proof (cases b)
    case None
    with a show ?thesis by (simp add: normalize_column_def who_is_ahead_def)
  next
    case (Some y)
    consider "x = y" | "x < y" | "y < x" by linarith
    then show ?thesis
    proof cases
      case 1
      with a Some show ?thesis by (simp add: normalize_column_def who_is_ahead_def)
    next
      case 2
      then have "max y x = y" "min y x = x" "max x y = y" by simp_all
      moreover have "(y * 100 - x * 100) / (y - x) = 100" using 2 by (simp add: field_simps)
      ultimately show ?thesis using 2 a Some
        by (cases "0 < y") (simp_all add: normalize_column_def who_is_ahead_def)
    next
      case 3
      then have "max y x = x" "min y x = y" "max x y = x" by simp_all
      moreover have "(x * 100 - y * 100) / (x - y) = 100" using 3 by (simp add: field_simps)
      ultimately show ?thesis using 3 a Some
        by (cases "0 < x") (simp_all add: normalize_column_def who_is_ahead_def)
    qed
  qed
qed

lemma norm_label_inj: "norm_label m = norm_label m' \<longleftrightarrow> m = m'"
  by (simp add: norm_label_def)

lemma head_to_head_table_init: "head_to_head_table cols0 r1 r2 {} \<lparr>columns = cols0, rows = [r1, r2]\<rparr>"
  by (simp add: head_to_head_table_def)

lemma add_norm_column_head_to_head_table:
  assumes "head_to_head_table cols0 r1 r2 S df" and "m \<notin> norm_label ` S"
  shows "head_to_head_table cols0 r1 r2 (insert m S) (add_norm_column m df)"
proof -
  from assms(1) obtain r1' r2' where cols: "set (columns df) = set cols0 \<union> norm_label ` S"
    and rows: "rows df = [r1', r2']"
    and names: "name r1' = name r1" "name r2' = name r2"
    and dn: "\<forall>m \<in> S. stats r1' (norm_label m)
                          = Some (fst (head_to_head (who_is_ahead (stats r1 m) (stats r2 m))))
                        \<and> stats r2' (norm_label m)
                          = Some (snd (head_to_head (who_is_ahead (stats r1 m) (stats r2 m))))"
    and rest: "\<forall>l. l \<notin> norm_label ` S \<longrightarrow> stats r1' l = stats r1 l \<and> stats r2' l = stats r2 l"
    unfolding head_to_head_table_def by blast
  let ?h = "head_to_head (who_is_ahead (stats r1 m) (stats r2 m))"
  let ?r1 = "r1'\<lparr>stats := (stats r1')(norm_label m := Some (fst ?h))\<rparr>"
  let ?r2 = "r2'\<lparr>stats := (stats r2')(norm_label m := Some (snd ?h))\<rparr>"
  from rest assms(2) have raw: "stats r1' m = stats r1 m" "stats r2' m = stats r2 m" by auto
  have new_rows: "rows (add_norm_column m df) = [?r1, ?r2]"
    by (simp add: add_norm_column_def set_column_def rows raw normalize_column_pair)
  have new_cols: "set (columns (add_norm_column m df)) = set cols0 \<union> norm_label ` insert m S"
    by (auto simp: add_norm_column_def set_column_def cols)
  have d: "\<forall>m' \<in> insert m S. stats ?r1 (norm_label m')
                          = Some (fst (head_to_head (who_is_ahead (stats r1 m') (stats r2 m'))))
                        \<and> stats ?r2 (norm_label m')
                          = Some (snd (head_to_head (who_is_ahead (stats r1 m') (stats r2 m'))))"
    using dn by (auto simp: norm_label_inj)
  have r: "\<forall>l. l \<notin> norm_label ` insert m S \<longrightarrow> stats ?r1 l = stats r1 l \<and> stats ?r2 l = stats r2 l"
    using rest by auto
  show ?thesis
    unfolding head_to_head_table_def using new_rows new_cols names d r by simp
qed

lemma foldl_head_to_head_table:
  assumes "head_to_head_table cols0 r1 r2 S df"
    and "\<forall>m \<in> set ms. m \<notin> norm_label ` (S \<union> set ms)"
  shows "head_to_head_table cols0 r1 r2 (S \<union> {m \<in> set ms. m \<in> set cols0})
           (foldl (\<lambda>nd metric. if metric \<in> set (columns nd)
                                then add_norm_column metric nd else nd) df ms)"
  using assms
proof (induction ms arbitrary: S df)
  case Nil
  then show ?case by simp
next
  case (Cons m ms)
  from Cons.prems(2) have mS: "m \<notin> norm_label ` S" by auto
  from Cons.prems(1) have cols: "set (columns df) = set cols0 \<union> norm_label ` S"
    by (simp add: head_to_head_table_def)
  show ?case
  proof (cases "m \<in> set cols0")
    case True
    then have inc: "m \<in> set (columns df)" using cols by simp
    have inv': "head_to_head_table cols0 r1 r2 (insert m S) (add_norm_column m df)"
      by (rule add_norm_column_head_to_head_table[OF Cons.prems(1) mS])
    have "\<forall>m' \<in> set ms. m' \<notin> norm_label ` (insert m S \<union> set ms)"
      using Cons.prems(2) by auto
    from Cons.IH[OF inv' this]
    have "head_to_head_table cols0 r1 r2 (insert m S \<union> {m' \<in> set ms. m' \<in> set cols0})
           (foldl (\<lambda>nd metric. if metric \<in> set (columns nd)
                                then add_norm_column metric nd else nd)
              (add_norm_column m df) ms)" .
    moreover have "insert m S \<union> {m' \<in> set ms. m' \<in> set cols0}
                   = S \<union> {m' \<in> set (m # ms). m' \<in> set cols0}"
      using True by auto
    ultimately show ?thesis using inc by simp
  next
    case False
    then have exc: "m \<notin> set (columns df)" using cols mS by simp
    have "\<forall>m' \<in> set ms. m' \<notin> norm_label ` (S \<union> set ms)"
      using Cons.prems(2) by auto
    from Cons.IH[OF Cons.prems(1) this]
    have "head_to_head_table cols0 r1 r2 (S \<union> {m' \<in> set ms. m' \<in> set cols0})
           (foldl (\<lambda>nd metric. if metric \<in> set (columns nd)
                                then add_norm_column metric nd else nd) df ms)" .
    moreover have "S \<union> {m' \<in> set ms. m' \<in> set cols0}
                   = S \<union> {m' \<in> set (m # ms). m' \<in> set cols0}"
      using False by auto
    ultimately show ?thesis using exc by simp
  qed
qed

lemma position_weights_no_norm_label:
  assumes "map_of position_weights position = Some w"
  shows "\<forall>m \<in> set (map fst w). m \<notin> norm_label ` set (map fst w)"
  using assms
  by (auto simp: position_weights_def forward_weights_def norm_label_def split: if_splits)

lemma normalize_pair:
  assumes "map_of position_weights position = Some w"
  shows "\<exists>nd. normalize_position_metrics \<lparr>columns = cols0, rows = [r1, r2]\<rparr> position = Inr nd
           \<and> head_to_head_table cols0 r1 r2 {m \<in> set (map fst w). m \<in> set cols0} nd"
proof -
  have "\<forall>m \<in> set (map fst w). m \<notin> norm_label ` ({} \<union> set (map fst w))"
    using position_weights_no_norm_label[OF assms] by simp
  from foldl_head_to_head_table[OF head_to_head_table_init this, of cols0 r1 r2]
  show ?thesis using assms by (simp add: normalize_position_metrics_def)
qed


lemma pair_scores:
  assumes inv: "head_to_head_table cols0 r1 r2 {m \<in> set (map fst w). m \<in> set cols0} nd"
    and raw: "\<forall>m \<in> set (map fst w). norm_label m \<notin> set cols0"
    and nn: "\<forall>e \<in> set w. 0 \<le> snd e"
  shows "\<exists>r1' r2'. rows nd = [r1', r2'] \<and> name r1' = name r1 \<and> name r2' = name r2
           \<and> player_score w (columns nd) (stats r1')
               = head_to_head_score fst w cols0 (\<lambda>m. who_is_ahead (stats r1 m) (stats r2 m))
           \<and> player_score w (columns nd) (stats r2')
               = head_to_head_score snd w cols0 (\<lambda>m. who_is_ahead (stats r1 m) (stats r2 m))"
proof -
  let ?S = "{m \<in> set (map fst w). m \<in> set cols0}"
  let ?ahd = "\<lambda>m. who_is_ahead (stats r1 m) (stats r2 m)"
  from inv obtain r1' r2' where cols: "set (columns nd) = set cols0 \<union> norm_label ` ?S"
    and rows: "rows nd = [r1', r2']"
    and names: "name r1' = name r1" "name r2' = name r2"
    and dn: "\<forall>m \<in> ?S. stats r1' (norm_label m) = Some (fst (head_to_head (?ahd m)))
                        \<and> stats r2' (norm_label m) = Some (snd (head_to_head (?ahd m)))"
    unfolding head_to_head_table_def by blast
  have key: "norm_label (fst e) \<in> set (columns nd) \<longleftrightarrow> fst e \<in> set cols0"
    if "e \<in> set w" for e
  proof
    assume "norm_label (fst e) \<in> set (columns nd)"
    moreover from that raw have "norm_label (fst e) \<notin> set cols0" by simp
    ultimately have "norm_label (fst e) \<in> norm_label ` ?S" using cols by blast
    then show "fst e \<in> set cols0" by (auto simp: norm_label_inj)
  next
    assume "fst e \<in> set cols0"
    with that have "fst e \<in> ?S" by simp
    then show "norm_label (fst e) \<in> set (columns nd)" using cols by blast
  qed
  have score: "player_score w (columns nd) (stats r') = head_to_head_score side w cols0 ?ahd"
    if cells: "\<forall>m \<in> ?S. stats r' (norm_label m) = Some (side (head_to_head (?ahd m)))"
    for r' side
  proof -
    have used: "present_metrics w (columns nd) (stats r') = filter (\<lambda>e. fst e \<in> set cols0) w"
      unfolding present_metrics_def
    proof (rule filter_cong[OF refl])
      fix e assume e: "e \<in> set w"
      show "(norm_label (fst e) \<in> set (columns nd) \<and> stats r' (norm_label (fst e)) \<noteq> None)
            = (fst e \<in> set cols0)"
      proof (cases "fst e \<in> set cols0")
        case True
        with e have "fst e \<in> ?S" by simp
        with cells have "stats r' (norm_label (fst e)) \<noteq> None" by simp
        with True key[OF e] show ?thesis by simp
      next
        case False
        with key[OF e] show ?thesis by simp
      qed
    qed
    have sums: "map (\<lambda>e. snd e * the (stats r' (norm_label (fst e))))
                  (filter (\<lambda>e. fst e \<in> set cols0) w)
                = map (\<lambda>e. snd e * side (head_to_head (?ahd (fst e))))
                  (filter (\<lambda>e. fst e \<in> set cols0) w)"
    proof (rule map_cong[OF refl])
      fix e assume "e \<in> set (filter (\<lambda>e. fst e \<in> set cols0) w)"
      then have "fst e \<in> ?S" by simp
      with cells show "snd e * the (stats r' (norm_label (fst e)))
                       = snd e * side (head_to_head (?ahd (fst e)))" by simp
    qed
    show ?thesis
      unfolding player_score_spec[OF nn] spec_weighted_score_def head_to_head_score_def
        Let_def used sums
      ..
  qed
  have "player_score w (columns nd) (stats r1') = head_to_head_score fst w cols0 ?ahd"
    by (rule score) (use dn in simp)
  moreover have "player_score w (columns nd) (stats r2') = head_to_head_score snd w cols0 ?ahd"
    by (rule score) (use dn in simp)
  ultimately show ?thesis using rows names by blast
qed

lemma series_row_fields:
  "name (series_row p) = name p" "player_position (series_row p) = player_position p"
  by (simp_all add: series_row_def)

lemma compare_players_result:
  assumes pos: "player_position p1 = player_position p2"
    and w: "map_of position_weights (player_position p1) = Some w"
    and keys: "set (required_keys (player_position p1)) \<subseteq> set (stat_keys p1)"
      "set (required_keys (player_position p1)) \<subseteq> set (stat_keys p2)"
    and raw: "\<forall>m \<in> set (map fst w). norm_label m \<notin> set (columns (temp_df p1 p2))"
  shows "compare_players p1 p2
         = Inr (head_to_head_result (name p1) (name p2) w (columns (temp_df p1 p2))
                  (ahead_on p1 p2))"
proof -
  let ?cols = "columns (temp_df p1 p2)"
  let ?ahd = "\<lambda>m. who_is_ahead (stats (series_row p1) m) (stats (series_row p2) m)"
  have ahd: "ahead_on p1 p2 = ?ahd" by (simp add: ahead_on_def fun_eq_iff)
  have tp: "temp_df p1 p2 = \<lparr>columns = ?cols, rows = [series_row p1, series_row p2]\<rparr>"
    by (simp add: temp_df_def)
  have nn: "\<forall>e \<in> set w. 0 \<le> snd e"
    using position_weights_positive[OF w] by (auto intro: less_imp_le)
  from normalize_pair[OF w, of ?cols "series_row p1" "series_row p2"] obtain nd
    where nd: "normalize_position_metrics (temp_df p1 p2) (player_position p1) = Inr nd"
      and inv: "head_to_head_table ?cols (series_row p1) (series_row p2)
                  {m \<in> set (map fst w). m \<in> set ?cols} nd"
    using tp by auto
  from pair_scores[OF inv raw nn] obtain r1' r2' where rows: "rows nd = [r1', r2']"
    and names: "name r1' = name p1" "name r2' = name p2"
    and s1: "player_score w (columns nd) (stats r1') = head_to_head_score fst w ?cols ?ahd"
    and s2: "player_score w (columns nd) (stats r2') = head_to_head_score snd w ?cols ?ahd"
    by (auto simp: series_row_fields)
  have flt: "filter (\<lambda>r. player_position r = player_position p1) (rows (temp_df p1 p2))
             = rows (temp_df p1 p2)"
    using pos by (simp add: temp_df_def series_row_fields)
  have same: "(temp_df p1 p2)\<lparr>rows := rows (temp_df p1 p2)\<rparr> = temp_df p1 p2" by simp
  have sc: "calculate_player_scores (temp_df p1 p2) (player_position p1)
            = Inr (dict_set (name p2) (head_to_head_score snd w ?cols ?ahd)
                     [(name p1, head_to_head_score fst w ?cols ?ahd)])"
    unfolding calculate_player_scores_def flt same Let_def
    using w nd rows names s1 s2 by (simp add: temp_df_def)
  show ?thesis
    unfolding compare_players_def Let_def sc ahd head_to_head_result_def
    using pos keys by simp
qed


lemma head_to_head_score_cong:
  assumes "\<forall>m \<in> set (map fst w). ahd m = ahd' m"
  shows "head_to_head_score side w cols ahd = head_to_head_score side w cols ahd'"
proof -
  have "map (\<lambda>e. snd e * side (head_to_head (ahd (fst e)))) (filter (\<lambda>e. fst e \<in> set cols) w)
        = map (\<lambda>e. snd e * side (head_to_head (ahd' (fst e)))) (filter (\<lambda>e. fst e \<in> set cols) w)"
    by (rule map_cong[OF refl]) (use assms in auto)
  then show ?thesis unfolding head_to_head_score_def Let_def by (simp only:)
qed

lemma head_to_head_result_cong:
  assumes "\<forall>m \<in> set (map fst w). ahd m = ahd' m"
  shows "head_to_head_result n1 n2 w cols ahd = head_to_head_result n1 n2 w cols ahd'"
  unfolding head_to_head_result_def
  by (simp only: head_to_head_score_cong[OF assms])

text \<open>
  Claim C10 as stated (the winner depends only on who is ahead on each weighted metric
  and on the position weights) fails: the scores are stored by name.  Against the same
  second player, with the same cells, once named \<open>Vini\<close> and once named like the
  first player, the first player wins the one comparison and the other is a draw.
\<close>

theorem same_name_changes_winner:
  "compare_players fwd1 fwd2 = Inr (Comparison ''Kylian'' 5500 ''Vini'' 4500 ''Kylian'')
   \<and> compare_players fwd1 fwd2k = Inr (Comparison ''Kylian'' 4500 ''Kylian'' 4500 ''Draw'')
   \<and> stats fwd2k = stats fwd2 \<and> stat_keys fwd2k = stat_keys fwd2
   \<and> player_position fwd2k = player_position fwd2"
  by (simp add: compare_players_def temp_df_def series_row_def fwd1_def fwd2_def fwd2k_def
        required_keys_def calculate_player_scores_def normalize_position_metrics_def
        position_weights_def forward_weights_def add_norm_column_def set_column_def
        norm_label_def normalize_column_def player_score_def)

text \<open>
  Claim C10, amended.  For two players of the same configured position whose records
  carry the labels that \<open>compare_players\<close> reads and no column \<open><metric>_norm\<close> of
  their own: the normalisation runs over the two players only, so the normalised
  column of two cells is 100 for the player ahead and 0 for the other when both cells
  are defined, differ and their maximum is positive, and 50 for both otherwise, and
  these are the normalised cells of the table.  Each score is the weighted score of
  these values over the weighted metrics that are columns; the scores are stored by
  name, so two players of the same name both get the second player's score; the winner
  is the name with the strictly greater score, \<open>Draw\<close> otherwise.  Hence, for given
  names, position and labels, the comparison depends only on who is ahead on each
  weighted metric, not on the sizes of the differences.
\<close>

theorem head_to_head_comparison:
  assumes "player_position p1 = player_position p2"
    and "map_of position_weights (player_position p1) = Some w"
    and "set (required_keys (player_position p1)) \<subseteq> set (stat_keys p1)"
    and "set (required_keys (player_position p1)) \<subseteq> set (stat_keys p2)"
    and "\<forall>m \<in> set (map fst w). norm_label m \<notin> set (columns (temp_df p1 p2))"
  shows "normalize_column [a, b] =
           [Some (fst (head_to_head (who_is_ahead a b))),
            Some (snd (head_to_head (who_is_ahead a b)))]
     \<and> (\<exists>nd. normalize_position_metrics (temp_df p1 p2) (player_position p1) = Inr nd
            \<and> head_to_head_table (columns (temp_df p1 p2)) (series_row p1) (series_row p2)
                 {m \<in> set (map fst w). m \<in> set (columns (temp_df p1 p2))} nd)
     \<and> compare_players p1 p2
         = Inr (head_to_head_result (name p1) (name p2) w (columns (temp_df p1 p2))
                  (ahead_on p1 p2))
     \<and> (name q1 = name p1 \<and> name q2 = name p2
          \<and> player_position q1 = player_position p1 \<and> player_position q2 = player_position p2
          \<and> stat_keys q1 = stat_keys p1 \<and> stat_keys q2 = stat_keys p2
          \<and> (\<forall>m \<in> set (map fst w). ahead_on q1 q2 m = ahead_on p1 p2 m)
          \<longrightarrow> compare_players q1 q2 = compare_players p1 p2)"
proof -
  have tp: "temp_df p1 p2 = \<lparr>columns = columns (temp_df p1 p2),
                              rows = [series_row p1, series_row p2]\<rparr>"
    by (simp add: temp_df_def)
  have tbl: "\<exists>nd. normalize_position_metrics (temp_df p1 p2) (player_position p1) = Inr nd
            \<and> head_to_head_table (columns (temp_df p1 p2)) (series_row p1) (series_row p2)
                 {m \<in> set (map fst w). m \<in> set (columns (temp_df p1 p2))} nd"
    using normalize_pair[OF assms(2), of "columns (temp_df p1 p2)" "series_row p1" "series_row p2"]
      tp by auto
  have res: "compare_players p1 p2
         = Inr (head_to_head_result (name p1) (name p2) w (columns (temp_df p1 p2))
                  (ahead_on p1 p2))"
    by (rule compare_players_result[OF assms])
  have inv: "compare_players q1 q2 = compare_players p1 p2"
    if q: "name q1 = name p1" "name q2 = name p2"
      "player_position q1 = player_position p1" "player_position q2 = player_position p2"
      "stat_keys q1 = stat_keys p1" "stat_keys q2 = stat_keys p2"
      and same: "\<forall>m \<in> set (map fst w). ahead_on q1 q2 m = ahead_on p1 p2 m"
  proof -
    have cols: "columns (temp_df q1 q2) = columns (temp_df p1 p2)"
      using q(5,6) by (simp add: temp_df_def)
    have "compare_players q1 q2
          = Inr (head_to_head_result (name q1) (name q2) w (columns (temp_df q1 q2))
                   (ahead_on q1 q2))"
      by (rule compare_players_result) (use assms q cols in simp_all)
    also have "\<dots> = Inr (head_to_head_result (name p1) (name p2) w (columns (temp_df p1 p2))
                   (ahead_on p1 p2))"
      unfolding q(1,2) cols using head_to_head_result_cong[OF same] by simp
    finally show ?thesis using res by simp
  qed
  show ?thesis using normalize_column_pair[of a b] tbl res inv by blast
qed

theorem head_to_head_comparison_witness:
  "player_position fwd1 = player_position fwd2
   \<and> map_of position_weights (player_position fwd1) = Some forward_weights
   \<and> list_all (\<lambda>k. k \<in> set (stat_keys fwd1) \<and> k \<in> set (stat_keys fwd2))
        (required_keys (player_position fwd1))
   \<and> list_all (\<lambda>m. norm_label m \<notin> set (columns (temp_df fwd1 fwd2))) (map fst forward_weights)
   \<and> name fwd1' = name fwd1 \<and> name fwd2' = name fwd2
   \<and> player_position fwd1' = player_position fwd1 \<and> player_position fwd2' = player_position fwd2
   \<and> stat_keys fwd1' = stat_keys fwd1 \<and> stat_keys fwd2' = stat_keys fwd2
   \<and> list_all (\<lambda>m. ahead_on fwd1' fwd2' m = ahead_on fwd1 fwd2 m) (map fst forward_weights)
   \<and> normalize_column [Some 31, Some 21] = [Some 100, Some 0]
   \<and> compare_players fwd1 fwd2 = Inr (Comparison ''Kylian'' 5500 ''Vini'' 4500 ''Kylian'')
   \<and> compare_players fwd1' fwd2' = compare_players fwd1 fwd2"
proof -
  have h1: "player_position fwd1 = player_position fwd2" by (simp add: fwd1_def fwd2_def)
  have h2: "map_of position_weights (player_position fwd1) = Some forward_weights"
    by (simp add: fwd1_def position_weights_def)
  have h3: "set (required_keys (player_position fwd1)) \<subseteq> set (stat_keys fwd1)"
    and h4: "set (required_keys (player_position fwd1)) \<subseteq> set (stat_keys fwd2)"
    by (simp_all add: required_keys_def fwd1_def fwd2_def)
  have h5: "\<forall>m \<in> set (map fst forward_weights).
              norm_label m \<notin> set (columns (temp_df fwd1 fwd2))"
    by (simp add: forward_weights_def norm_label_def temp_df_def fwd1_def fwd2_def)
  have q: "name fwd1' = name fwd1" "name fwd2' = name fwd2"
    "player_position fwd1' = player_position fwd1" "player_position fwd2' = player_position fwd2"
    "stat_keys fwd1' = stat_keys fwd1" "stat_keys fwd2' = stat_keys fwd2"
    by (simp_all add: fwd1_def fwd2_def fwd1'_def fwd2'_def)
  have same: "\<forall>m \<in> set (map fst forward_weights). ahead_on fwd1' fwd2' m = ahead_on fwd1 fwd2 m"
    by (simp add: forward_weights_def ahead_on_def who_is_ahead_def series_row_def
          fwd1_def fwd2_def fwd1'_def fwd2'_def)
  have ahd: "ahead_on fwd1 fwd2 ''goals'' = First" "ahead_on fwd1 fwd2 ''assists'' = Second"
    "ahead_on fwd1 fwd2 ''appearances'' = First" "ahead_on fwd1 fwd2 ''market_value'' = Second"
    by (simp_all add: ahead_on_def who_is_ahead_def series_row_def fwd1_def fwd2_def)
  have cols: "columns (temp_df fwd1 fwd2)
              = [''age'', ''goals'', ''assists'', ''market_value'', ''appearances'']"
    by (simp add: temp_df_def fwd1_def fwd2_def)
  have nm: "name fwd1 = ''Kylian''" "name fwd2 = ''Vini''" by (simp_all add: fwd1_def fwd2_def)
  have v: "head_to_head_result (name fwd1) (name fwd2) forward_weights
             (columns (temp_df fwd1 fwd2)) (ahead_on fwd1 fwd2)
           = Comparison ''Kylian'' 5500 ''Vini'' 4500 ''Kylian''"
    unfolding cols nm
    by (simp add: head_to_head_result_def head_to_head_score_def forward_weights_def ahd)
  from head_to_head_comparison[OF h1 h2 h3 h4 h5, of "Some 31" "Some 21" fwd1' fwd2'] q same v
  have c: "normalize_column [Some 31, Some 21]
           = [Some (fst (head_to_head (who_is_ahead (Some 31) (Some 21)))),
              Some (snd (head_to_head (who_is_ahead (Some 31) (Some 21))))]"
    "compare_players fwd1 fwd2 = Inr (Comparison ''Kylian'' 5500 ''Vini'' 4500 ''Kylian'')"
    "compare_players fwd1' fwd2' = compare_players fwd1 fwd2"
    by simp_all
  have n: "normalize_column [Some 31, Some 21] = [Some 100, Some 0]"
    using c(1) by (simp add: who_is_ahead_def)
  from h1 h2 h3 h4 h5 q same n c(2,3) show ?thesis
    by (simp add: list_all_iff subset_iff)
qed

end
